theory Spec2Isabelle
  imports Complex_Main "HOL-Library.Product_Lexorder"
begin

section \<open>Numbers of the numeric library\<close>

text \<open>
  The matrices of \<^verbatim>\<open>sar_singlenode.py\<close> hold IEEE doubles. A cell is modelled as a finite
  value, one of the two infinities, or not-a-number. Finite values are exact reals:
  rounding and overflow are left out, and zero carries no sign (a division of a non-zero
  finite value by zero takes the sign of the numerator, as numpy does for \<open>+0.0\<close>).
  The special values follow IEEE 754: \<open>inf - inf\<close>, \<open>0 * inf\<close>, \<open>0 / 0\<close> and
  \<open>inf / inf\<close> are NaN, and NaN is absorbing.
\<close>

datatype fl = Fin real | PInf | MInf | NaN

fun fadd :: "fl \<Rightarrow> fl \<Rightarrow> fl" where
  "fadd NaN _ = NaN"
| "fadd _ NaN = NaN"
| "fadd (Fin a) (Fin b) = Fin (a + b)"
| "fadd PInf MInf = NaN"
| "fadd MInf PInf = NaN"
| "fadd PInf _ = PInf"
| "fadd _ PInf = PInf"
| "fadd MInf _ = MInf"
| "fadd _ MInf = MInf"

fun fneg :: "fl \<Rightarrow> fl" where
  "fneg (Fin a) = Fin (- a)"
| "fneg PInf = MInf"
| "fneg MInf = PInf"
| "fneg NaN = NaN"

definition fsub :: "fl \<Rightarrow> fl \<Rightarrow> fl" where
  "fsub x y = fadd x (fneg y)"

fun fsgn :: "fl \<Rightarrow> int" where
  "fsgn (Fin a) = (if a = 0 then 0 else if 0 < a then 1 else - 1)"
| "fsgn PInf = 1"
| "fsgn MInf = - 1"
| "fsgn NaN = 0"

definition inf_of_sign :: "int \<Rightarrow> fl" where
  "inf_of_sign s = (if s = 0 then NaN else if 0 < s then PInf else MInf)"

fun fmul :: "fl \<Rightarrow> fl \<Rightarrow> fl" where
  "fmul NaN _ = NaN"
| "fmul _ NaN = NaN"
| "fmul (Fin a) (Fin b) = Fin (a * b)"
| "fmul x y = inf_of_sign (fsgn x * fsgn y)"

fun fdiv :: "fl \<Rightarrow> fl \<Rightarrow> fl" where
  "fdiv NaN _ = NaN"
| "fdiv _ NaN = NaN"
| "fdiv (Fin a) (Fin b) = (if b = 0 then inf_of_sign (fsgn (Fin a)) else Fin (a / b))"
| "fdiv (Fin a) _ = Fin 0"
| "fdiv PInf (Fin b) = (if b < 0 then MInf else PInf)"
| "fdiv MInf (Fin b) = (if b < 0 then PInf else MInf)"
| "fdiv _ _ = NaN"

definition isnan :: "fl \<Rightarrow> bool" where
  "isnan x = (x = NaN)"

definition isfinite :: "fl \<Rightarrow> bool" where
  "isfinite x = (case x of Fin _ \<Rightarrow> True | _ \<Rightarrow> False)"

text \<open>\<^verbatim>\<open>float(k)\<close> of a count or an index.\<close>

definition of_count :: "int \<Rightarrow> fl" where
  "of_count k = Fin (of_int k)"

text \<open>The dtype of the rating column, as far as \<^verbatim>\<open>fit\<close> looks at it: \<^verbatim>\<open>astype\<close> to an
  integer dtype truncates towards zero (the integer range is not modelled; numpy turns
  NaN and the infinities into the smallest integer).\<close>

datatype dtype = Float64 | Int64 | Object

definition is_number :: "dtype \<Rightarrow> bool" where
  "is_number d = (d \<noteq> Object)"

fun trunc :: "fl \<Rightarrow> fl" where
  "trunc (Fin a) = Fin (of_int (if 0 \<le> a then \<lfloor>a\<rfloor> else \<lceil>a\<rceil>))"
| "trunc _ = Fin (- 9223372036854775808)"

definition astype :: "dtype \<Rightarrow> fl \<Rightarrow> fl" where
  "astype d x = (if d = Int64 then trunc x else x)"

section \<open>Tables, matrices and the model object\<close>

text \<open>A row of the interaction table \<^verbatim>\<open>df\<close>: the columns \<^verbatim>\<open>col_user\<close>, \<^verbatim>\<open>col_item\<close>,
  \<^verbatim>\<open>col_rating\<close> and \<^verbatim>\<open>col_timestamp\<close> (numeric, in seconds).\<close>

record ('u, 'i) interaction =
  user :: 'u
  item :: 'i
  rating :: fl
  timestamp :: real

text \<open>A cell of a column that \<^verbatim>\<open>fit\<close> adds to \<^verbatim>\<open>temp_df\<close> on the way: the column is
  not there yet (\<open>Absent\<close>), the cell is NaN because \<^verbatim>\<open>Series.map\<close> did not find the
  identifier in the dictionary (\<open>Missing\<close>), or it holds a value.\<close>

datatype 'a cell = Absent | Missing | Val 'a

text \<open>A row of \<^verbatim>\<open>temp_df\<close> inside \<^verbatim>\<open>fit\<close>, with the added columns \<^verbatim>\<open>_indexed_items\<close>,
  \<^verbatim>\<open>_indexed_users\<close> and \<^verbatim>\<open>_unity_rating\<close>. \<open>t_timestamp\<close> is read only when the
  time-decay flag selected the timestamp column.\<close>

record ('u, 'i) temp_row =
  t_user :: 'u
  t_item :: 'i
  t_rating :: fl
  t_timestamp :: real
  indexed_items :: "nat cell"
  indexed_users :: "nat cell"
  unity_rating :: "fl cell"

text \<open>A scipy CSR matrix: the stored cells. A cell that is not stored reads as zero and
  takes no part in a multiplication by a scalar. A dense \<^verbatim>\<open>ndarray\<close> is the list of its
  rows.\<close>

type_synonym csr = "nat \<times> nat \<rightharpoonup> fl"
type_synonym ndarray = "fl list list"

datatype error =
    InvalidConfiguration
  | InvalidInput
  | UnknownEntity
  | NormalizationUnavailable
  | NotFitted
  | KeyError
  | IndexError
  | MatrixError
  | FileNotFound

text \<open>
  The exceptions of the source, named after the specification's taxonomy:
  \<^item> \<open>InvalidConfiguration\<close>: the \<^verbatim>\<open>ValueError\<close> of \<^verbatim>\<open>__init__\<close> (threshold) and of
    \<^verbatim>\<open>fit\<close> (unknown similarity type);
  \<^item> \<open>InvalidInput\<close>: the \<^verbatim>\<open>TypeError\<close> "Rating column data type must be numeric";
  \<^item> \<open>UnknownEntity\<close>: the \<^verbatim>\<open>ValueError\<close> "SAR cannot score users that are not in the
    training set";
  \<^item> \<open>NormalizationUnavailable\<close>: the \<^verbatim>\<open>ValueError\<close> "Cannot use normalize flag during
    scoring if it was not set at model instantiation";
  \<^item> \<open>NotFitted\<close>: an attribute that is still \<^verbatim>\<open>None\<close> is used;
  \<^item> \<open>KeyError\<close>: a dictionary lacks the key; \<open>IndexError\<close>: an index into an
    \<^verbatim>\<open>ndarray\<close> is out of bounds; \<open>MatrixError\<close>: the \<^verbatim>\<open>ValueError\<close> of numpy and scipy
    for shapes that do not fit or a sparse index outside the shape; \<open>FileNotFound\<close>:
    \<^verbatim>\<open>open\<close> or \<^verbatim>\<open>np.load\<close> finds no file.
\<close>

datatype similarity = COOCCUR | JACCARD | LIFT | CUSTOM

record ('u, 'i) sar =
  similarity_type :: similarity
  time_decay_half_life :: real
  time_decay_flag :: bool
  time_now :: "real option"
  threshold :: int
  normalize :: bool
  user_affinity :: "csr option"
  unity_user_affinity :: "csr option"
  item_similarity :: "ndarray option"
  item_frequencies :: "fl list option"
  n_users :: "nat option"
  n_items :: "nat option"
  user2index :: "('u \<rightharpoonup> nat) option"
  item2index :: "('i \<rightharpoonup> nat) option"
  index2item :: "(nat \<rightharpoonup> 'i) option"
  features_sim_matrix :: "ndarray option"

text \<open>\<^verbatim>\<open>__init__\<close>. The similarity type is a value of the four-element type, so the
  membership test of the source cannot fail here; \<^verbatim>\<open>time_decay_coefficient\<close> is in days.\<close>

definition sar_init ::
  "similarity \<Rightarrow> real \<Rightarrow> real option \<Rightarrow> bool \<Rightarrow> int \<Rightarrow> bool \<Rightarrow> error + ('u, 'i) sar" where
  "sar_init similarity_type' time_decay_coefficient time_now' timedecay_formula threshold'
      normalize' =
     (if threshold' \<le> 0 then Inl InvalidConfiguration
      else Inr \<lparr> similarity_type = similarity_type',
                 time_decay_half_life = time_decay_coefficient * 24 * 60 * 60,
                 time_decay_flag = timedecay_formula,
                 time_now = time_now',
                 threshold = threshold',
                 normalize = normalize',
                 user_affinity = None,
                 unity_user_affinity = None,
                 item_similarity = None,
                 item_frequencies = None,
                 n_users = None,
                 n_items = None,
                 user2index = None,
                 item2index = None,
                 index2item = None,
                 features_sim_matrix = None \<rparr>)"

subsection \<open>The identity index\<close>

text \<open>\<^verbatim>\<open>Series.unique()\<close>: the distinct values in the order of their first occurrence.\<close>

definition unique :: "'a list \<Rightarrow> 'a list" where
  "unique xs = rev (remdups (rev xs))"

text \<open>A Python dictionary built from key-value pairs: a later pair replaces an earlier one
  with the same key. \<^verbatim>\<open>len\<close> of a dictionary is the number of its keys.\<close>

definition py_dict :: "('k \<times> 'v) list \<Rightarrow> ('k \<rightharpoonup> 'v)" where
  "py_dict kvs = fold (\<lambda>kv d. d(fst kv \<mapsto> snd kv)) kvs Map.empty"

definition len :: "('k \<rightharpoonup> 'v) \<Rightarrow> nat" where
  "len d = card (dom d)"

definition inverted :: "(nat \<times> 'a) list \<Rightarrow> ('a \<times> nat) list" where
  "inverted kvs = map (\<lambda>kv. (snd kv, fst kv)) kvs"

definition set_index :: "('u, 'i) sar \<Rightarrow> ('u, 'i) interaction list \<Rightarrow> ('u, 'i) sar" where
  "set_index m df =
     (let i2i = py_dict (enumerate 0 (unique (map item df)));
          u2i = py_dict (inverted (enumerate 0 (unique (map user df))))
      in m \<lparr> index2item := Some i2i,
             item2index := Some (py_dict (inverted (enumerate 0 (unique (map item df))))),
             user2index := Some u2i,
             n_users := Some (len u2i),
             n_items := Some (len i2i) \<rparr>)"

subsection \<open>Restoring a saved index\<close>

text \<open>The files \<^verbatim>\<open>load_file\<close> reads, by directory and item count:
  \<^verbatim>\<open>item_feature_similarity_N.npy\<close>, \<^verbatim>\<open>index2item_N.obj\<close> and \<^verbatim>\<open>item2index_N.obj\<close>.\<close>

datatype path = Experiment | Demo

record 'i disk =
  item_feature_similarity_npy :: "path \<Rightarrow> nat \<Rightarrow> ndarray option"
  index2item_obj :: "path \<Rightarrow> nat \<Rightarrow> (nat \<rightharpoonup> 'i) option"
  item2index_obj :: "path \<Rightarrow> nat \<Rightarrow> ('i \<rightharpoonup> nat) option"

definition load_file ::
  "('u, 'i) sar \<Rightarrow> 'i disk \<Rightarrow> path \<Rightarrow> nat \<Rightarrow> ('u, 'i) interaction list \<Rightarrow> error + ('u, 'i) sar" where
  "load_file m d p num_items df_ratings =
     (case item_feature_similarity_npy d p num_items of
        None \<Rightarrow> Inl FileNotFound
      | Some fs \<Rightarrow>
         (case index2item_obj d p num_items of
            None \<Rightarrow> Inl FileNotFound
          | Some i2i \<Rightarrow>
             (case item2index_obj d p num_items of
                None \<Rightarrow> Inl FileNotFound
              | Some it2i \<Rightarrow>
                 (let m1 = m \<lparr> features_sim_matrix := Some fs, index2item := Some i2i \<rparr>;
                      u2i = py_dict (inverted (enumerate 0 (unique (map user df_ratings))));
                      m2 = m1 \<lparr> item2index := Some it2i, user2index := Some u2i \<rparr>;
                      m3 = m2 \<lparr> n_users := Some (len u2i), n_items := Some (len u2i) \<rparr>
                  in Inr (m3 \<lparr> n_items := Some (len i2i) \<rparr>)))))"

section \<open>Building the matrices\<close>

subsection \<open>Sparse matrices from coordinates\<close>

text \<open>\<^verbatim>\<open>sparse.coo_matrix((data, (row, col)), shape).tocsr()\<close>: entries at the same
  coordinates are added up, in the order of the rows. scipy refuses a coordinate outside the
  shape; a NaN coordinate is converted to an integer outside every shape, so it is
  refused as well.\<close>

definition cell_lt :: "nat cell \<Rightarrow> nat \<Rightarrow> bool" where
  "cell_lt c n = (case c of Val k \<Rightarrow> k < n | _ \<Rightarrow> False)"

definition cell_val :: "nat cell \<Rightarrow> nat" where
  "cell_val c = (case c of Val k \<Rightarrow> k | _ \<Rightarrow> 0)"

definition coord :: "'a \<times> nat cell \<times> nat cell \<Rightarrow> nat \<times> nat" where
  "coord e = (cell_val (fst (snd e)), cell_val (snd (snd e)))"

definition coo_add ::
  "('a \<Rightarrow> 'a \<Rightarrow> 'a) \<Rightarrow> 'a \<times> nat cell \<times> nat cell \<Rightarrow> (nat \<times> nat \<rightharpoonup> 'a)
     \<Rightarrow> (nat \<times> nat \<rightharpoonup> 'a)" where
  "coo_add add e A =
     A(coord e \<mapsto> (case A (coord e) of None \<Rightarrow> fst e | Some w \<Rightarrow> add w (fst e)))"

definition coo_tocsr ::
  "('a \<Rightarrow> 'a \<Rightarrow> 'a) \<Rightarrow> nat \<Rightarrow> nat \<Rightarrow> ('a \<times> nat cell \<times> nat cell) list \<Rightarrow> error + (nat \<times> nat \<rightharpoonup> 'a)" where
  "coo_tocsr add nr nc entries =
     (if \<forall>e \<in> set entries. cell_lt (fst (snd e)) nr \<and> cell_lt (snd (snd e)) nc
      then Inr (fold (coo_add add) entries Map.empty)
      else Inl MatrixError)"

datatype column = RatingCol | UnityCol

definition col_value :: "column \<Rightarrow> ('u, 'i) temp_row \<Rightarrow> fl" where
  "col_value c r =
     (case c of
        RatingCol \<Rightarrow> t_rating r
      | UnityCol \<Rightarrow> (case unity_rating r of Val v \<Rightarrow> v | _ \<Rightarrow> NaN))"

definition compute_affinity_matrix ::
  "('u, 'i) sar \<Rightarrow> ('u, 'i) temp_row list \<Rightarrow> column \<Rightarrow> error + csr" where
  "compute_affinity_matrix m df rating_col =
     (case n_users m of
        None \<Rightarrow> Inl NotFitted
      | Some nu \<Rightarrow>
         (case n_items m of
            None \<Rightarrow> Inl NotFitted
          | Some ni \<Rightarrow>
             coo_tocsr fadd nu ni
               (map (\<lambda>r. (col_value rating_col r, indexed_users r, indexed_items r)) df)))"

subsection \<open>Time decay and aggregation\<close>

text \<open>Modelled from the spec: \<^verbatim>\<open>exponential_decay\<close> is imported from
  \<^verbatim>\<open>reco_utils.common.python_utils\<close>, which is not part of the sources. The specification
  describes it as an exponential half-life decay of \<open>(timestamp, reference_time,
  half_life)\<close> with a weight in \<open>(0, 1]\<close>.\<close>

definition exponential_decay :: "real \<Rightarrow> real \<Rightarrow> real \<Rightarrow> real" where
  "exponential_decay val max_val half_life =
     min 1 ((1 / 2) powr ((max_val - val) / half_life))"

text \<open>\<^verbatim>\<open>DataFrame.groupby([col_user, col_item]).sum().reset_index()\<close>: one row per key, the
  keys in sorted order, every other column summed over the group. pandas skips NaN cells
  in a sum.\<close>

definition nansum :: "fl list \<Rightarrow> fl" where
  "nansum xs = fold (\<lambda>x acc. fadd acc x) (filter (\<lambda>x. \<not> isnan x) xs) (Fin 0)"

definition sum_index :: "nat cell list \<Rightarrow> nat cell" where
  "sum_index cs =
     (if list_ex (\<lambda>c. c = Absent) cs then Absent else Val (sum_list (map cell_val cs)))"

definition sum_unity :: "fl cell list \<Rightarrow> fl cell" where
  "sum_unity cs =
     (if list_ex (\<lambda>c. c = Absent) cs then Absent
      else Val (nansum (map (\<lambda>c. case c of Val v \<Rightarrow> v | _ \<Rightarrow> NaN) cs)))"

definition row_key :: "('u, 'i) temp_row \<Rightarrow> 'u \<times> 'i" where
  "row_key r = (t_user r, t_item r)"

definition sum_group :: "'u \<times> 'i \<Rightarrow> ('u, 'i) temp_row list \<Rightarrow> ('u, 'i) temp_row" where
  "sum_group k rs =
     \<lparr> t_user = fst k, t_item = snd k,
       t_rating = nansum (map t_rating rs),
       t_timestamp = sum_list (map t_timestamp rs),
       indexed_items = sum_index (map indexed_items rs),
       indexed_users = sum_index (map indexed_users rs),
       unity_rating = sum_unity (map unity_rating rs) \<rparr>"

definition groupby_sum ::
  "('u::linorder, 'i::linorder) temp_row list \<Rightarrow> ('u, 'i) temp_row list" where
  "groupby_sum df =
     map (\<lambda>k. sum_group k (filter (\<lambda>r. row_key r = k) df)) (sort (remdups (map row_key df)))"

definition series_max :: "real list \<Rightarrow> real option" where
  "series_max xs = (case xs of [] \<Rightarrow> None | x # ys \<Rightarrow> Some (fold max ys x))"

definition scale_column :: "column \<Rightarrow> fl \<Rightarrow> ('u, 'i) temp_row \<Rightarrow> ('u, 'i) temp_row" where
  "scale_column c w r =
     (case c of
        RatingCol \<Rightarrow> r \<lparr> t_rating := fmul (t_rating r) w \<rparr>
      | UnityCol \<Rightarrow>
          r \<lparr> unity_rating := (case unity_rating r of Val v \<Rightarrow> Val (fmul v w) | c' \<Rightarrow> c') \<rparr>)"

text \<open>\<^verbatim>\<open>compute_time_decay\<close> stores the reference time in the object when it was not
  given. On an empty table the maximum is NaN in pandas and nothing is decayed; the model
  leaves \<open>time_now\<close> unset there.\<close>

definition compute_time_decay ::
  "('u::linorder, 'i::linorder) sar \<Rightarrow> ('u, 'i) temp_row list \<Rightarrow> column
     \<Rightarrow> ('u, 'i) sar \<times> ('u, 'i) temp_row list" where
  "compute_time_decay m df decay_column =
     (let now = (case time_now m of
                   None \<Rightarrow> series_max (map t_timestamp df)
                 | Some t \<Rightarrow> Some t)
      in (m \<lparr> time_now := now \<rparr>,
          groupby_sum
            (map (\<lambda>r. case now of
                        None \<Rightarrow> r
                      | Some t \<Rightarrow>
                          scale_column decay_column
                            (Fin (exponential_decay (t_timestamp r) t (time_decay_half_life m))) r)
               df)))"

text \<open>\<^verbatim>\<open>DataFrame.drop_duplicates([col_user, col_item], keep="last")\<close>: a row stays when no
  later row has its user and item.\<close>

fun drop_duplicates_last :: "('u, 'i) temp_row list \<Rightarrow> ('u, 'i) temp_row list" where
  "drop_duplicates_last [] = []"
| "drop_duplicates_last (r # rs) =
     (if \<exists>r' \<in> set rs. row_key r' = row_key r then drop_duplicates_last rs
      else r # drop_duplicates_last rs)"

subsection \<open>Co-occurrence\<close>

definition entry :: "(nat \<times> nat \<rightharpoonup> int) \<Rightarrow> nat \<times> nat \<Rightarrow> int" where
  "entry A k = (case A k of None \<Rightarrow> 0 | Some v \<Rightarrow> v)"

text \<open>\<^verbatim>\<open>user_item_hits.transpose().dot(user_item_hits)\<close>, before the threshold.\<close>

definition item_cooccurrence :: "(nat \<times> nat \<rightharpoonup> int) \<Rightarrow> nat \<Rightarrow> nat \<Rightarrow> nat \<Rightarrow> int" where
  "item_cooccurrence hits nu i j = (\<Sum>u \<leftarrow> [0..<nu]. entry hits (u, i) * entry hits (u, j))"

text \<open>\<^verbatim>\<open>item_cooccurrence.multiply(item_cooccurrence >= self.threshold)\<close>.\<close>

definition threshold_mask :: "int \<Rightarrow> int \<Rightarrow> int" where
  "threshold_mask t c = c * (if t \<le> c then 1 else 0)"

definition user_item_hits ::
  "('u, 'i) sar \<Rightarrow> ('u, 'i) temp_row list \<Rightarrow> error + (nat \<times> nat \<rightharpoonup> int)" where
  "user_item_hits m df =
     (case n_users m of
        None \<Rightarrow> Inl NotFitted
      | Some nu \<Rightarrow>
         (case n_items m of
            None \<Rightarrow> Inl NotFitted
          | Some ni \<Rightarrow>
             coo_tocsr (+) nu ni (map (\<lambda>r. (1, indexed_users r, indexed_items r)) df)))"

text \<open>The result of \<^verbatim>\<open>compute_coocurrence_matrix\<close> is a sparse matrix in the source; the
  model lists all its cells, the cells that are not stored as zero.\<close>

definition compute_coocurrence_matrix ::
  "('u, 'i) sar \<Rightarrow> ('u, 'i) temp_row list \<Rightarrow> dtype \<Rightarrow> error + ndarray" where
  "compute_coocurrence_matrix m df rating_dtype =
     (case user_item_hits m df of
        Inl e \<Rightarrow> Inl e
      | Inr hits \<Rightarrow>
          (let nu = the (n_users m); ni = the (n_items m)
           in Inr (map (\<lambda>i. map (\<lambda>j. astype rating_dtype
                                      (of_count (threshold_mask (threshold m)
                                                   (item_cooccurrence hits nu i j))))
                              [0..<ni])
                     [0..<ni])))"

subsection \<open>Similarity\<close>

text \<open>Modelled from the spec: \<^verbatim>\<open>jaccard\<close> and \<^verbatim>\<open>lift\<close> are imported from
  \<^verbatim>\<open>reco_utils.common.python_utils\<close>, which is not part of the sources. The specification:
  jaccard is \<open>c(i,j) / (freq(i) + freq(j) - c(i,j))\<close>, lift is
  \<open>c(i,j) / (freq(i) * freq(j))\<close>, where \<open>freq\<close> is the diagonal, and \<open>0/0\<close> is
  defined as \<open>0\<close>.\<close>

definition ratio :: "fl \<Rightarrow> fl \<Rightarrow> fl" where
  "ratio c d = (if c = Fin 0 \<and> d = Fin 0 then Fin 0 else fdiv c d)"

definition jaccard :: "ndarray \<Rightarrow> ndarray" where
  "jaccard C =
     map (\<lambda>i. map (\<lambda>j. ratio (C ! i ! j) (fsub (fadd (C ! i ! i) (C ! j ! j)) (C ! i ! j)))
                [0..<length C])
       [0..<length C]"

definition lift :: "ndarray \<Rightarrow> ndarray" where
  "lift C =
     map (\<lambda>i. map (\<lambda>j. ratio (C ! i ! j) (fmul (C ! i ! i) (C ! j ! j))) [0..<length C])
       [0..<length C]"

definition diagonal :: "ndarray \<Rightarrow> fl list" where
  "diagonal C = map (\<lambda>i. C ! i ! i) [0..<length C]"

text \<open>A loop whose body may raise: the first error ends it.\<close>

fun for_each :: "(nat \<Rightarrow> 's \<Rightarrow> error + 's) \<Rightarrow> nat list \<Rightarrow> 's \<Rightarrow> error + 's" where
  "for_each body [] s = Inr s"
| "for_each body (i # is) s =
     (case body i s of Inl e \<Rightarrow> Inl e | Inr s' \<Rightarrow> for_each body is s')"

text \<open>The item feature table: the identifier column \<^verbatim>\<open>col_itemid\<close> and the feature columns
  by name. \<^verbatim>\<open>col_weights\<close> is the dictionary of the source with its reserved key
  \<^verbatim>\<open>'ratings'\<close> (a number, \<open>None\<close> when the key is not there) apart from the feature
  columns, which map to a weight and a similarity function, in the order of the
  dictionary.\<close>

record ('i, 'f) feature_row =
  f_itemid :: 'i
  f_col :: "string \<Rightarrow> 'f"

record 'f col_weights =
  ratings_weight :: "fl option"
  feature_weights :: "(string \<times> fl \<times> ('f \<Rightarrow> 'f \<Rightarrow> fl)) list"

text \<open>\<^verbatim>\<open>np.empty\<close> returns memory as it is: the content is a parameter of the model. The
  dtype \<^verbatim>\<open>float16\<close> of the array is not modelled (see the first section).\<close>

definition np_empty :: "(nat \<Rightarrow> nat \<Rightarrow> fl) \<Rightarrow> nat \<Rightarrow> ndarray" where
  "np_empty content n = map (\<lambda>a. map (\<lambda>b. content a b) [0..<n]) [0..<n]"

definition sim_write ::
  "('i \<rightharpoonup> nat) \<Rightarrow> ('i, 'f) feature_row list \<Rightarrow> string \<Rightarrow> ('f \<Rightarrow> 'f \<Rightarrow> fl) \<Rightarrow> nat \<Rightarrow> nat
     \<Rightarrow> ndarray \<Rightarrow> error + ndarray" where
  "sim_write it2i df_features col_sim f i j sim_matrix =
     (case it2i (f_itemid (df_features ! i)) of
        None \<Rightarrow> Inl KeyError
      | Some index_i \<Rightarrow>
         (case it2i (f_itemid (df_features ! j)) of
            None \<Rightarrow> Inl KeyError
          | Some index_j \<Rightarrow>
              if index_i < length sim_matrix \<and> index_j < length sim_matrix
              then Inr (sim_matrix [index_i := (sim_matrix ! index_i)
                          [index_j := f (f_col (df_features ! i) col_sim)
                                        (f_col (df_features ! j) col_sim)]])
              else Inl IndexError))"

definition make_sim_matrix ::
  "('u, 'i) sar \<Rightarrow> ('i, 'f) feature_row list \<Rightarrow> string \<Rightarrow> ('f \<Rightarrow> 'f \<Rightarrow> fl) \<Rightarrow> (nat \<Rightarrow> nat \<Rightarrow> fl)
     \<Rightarrow> error + ndarray" where
  "make_sim_matrix m df_features col_sim f content =
     (let num_items = length df_features
      in case item2index m of
           None \<Rightarrow> (if num_items = 0 then Inr [] else Inl NotFitted)
         | Some it2i \<Rightarrow>
             for_each
               (\<lambda>i. for_each (sim_write it2i df_features col_sim f i) [0..<num_items])
               [0..<num_items] (np_empty content num_items))"

definition zeros :: "nat \<Rightarrow> nat \<Rightarrow> ndarray" where
  "zeros r c = replicate r (replicate c (Fin 0))"

definition scale :: "fl \<Rightarrow> ndarray \<Rightarrow> ndarray" where
  "scale w M = map (map (fmul w)) M"

definition add_arrays :: "ndarray \<Rightarrow> ndarray \<Rightarrow> ndarray" where
  "add_arrays A B = map2 (map2 fadd) A B"

text \<open>\<^verbatim>\<open>compute_feature_sim_matrix\<close>; the uninitialised content of each \<^verbatim>\<open>np.empty\<close> is
  given per feature column.\<close>

fun feature_sum ::
  "('u, 'i) sar \<Rightarrow> ('i, 'f) feature_row list \<Rightarrow> (string \<Rightarrow> nat \<Rightarrow> nat \<Rightarrow> fl)
     \<Rightarrow> (string \<times> fl \<times> ('f \<Rightarrow> 'f \<Rightarrow> fl)) list \<Rightarrow> ndarray \<Rightarrow> error + ndarray" where
  "feature_sum m features content [] acc = Inr acc"
| "feature_sum m features content (cw # cws) acc =
     (case make_sim_matrix m features (fst cw) (snd (snd cw)) (content (fst cw)) of
        Inl e \<Rightarrow> Inl e
      | Inr sm \<Rightarrow>
          feature_sum m features content cws (add_arrays acc (scale (fst (snd cw)) sm)))"

definition compute_feature_sim_matrix ::
  "('u, 'i) sar \<Rightarrow> 'f col_weights \<Rightarrow> ('i, 'f) feature_row list \<Rightarrow> (string \<Rightarrow> nat \<Rightarrow> nat \<Rightarrow> fl)
     \<Rightarrow> error + ndarray" where
  "compute_feature_sim_matrix m cw features content =
     feature_sum m features content (feature_weights cw)
       (zeros (length features) (length features))"

text \<open>\<^verbatim>\<open>A += B\<close> on arrays of two dimensions: \<open>B\<close> is broadcast to the shape of \<open>A\<close>, which
  numpy allows when each dimension of \<open>B\<close> is that of \<open>A\<close> or one.\<close>

definition ncols :: "ndarray \<Rightarrow> nat" where
  "ncols M = (case M of [] \<Rightarrow> 0 | row # _ \<Rightarrow> length row)"

definition rectangular :: "ndarray \<Rightarrow> bool" where
  "rectangular M = (\<forall>row \<in> set M. length row = ncols M)"

definition iadd :: "ndarray \<Rightarrow> ndarray \<Rightarrow> error + ndarray" where
  "iadd A B =
     (if rectangular A \<and> rectangular B
         \<and> (length B = length A \<or> length B = 1) \<and> (ncols B = ncols A \<or> ncols B = 1)
      then Inr (map (\<lambda>i. map (\<lambda>j. fadd (A ! i ! j)
                                   (B ! (if length B = 1 then 0 else i)
                                      ! (if ncols B = 1 then 0 else j)))
                          [0..<ncols A])
                  [0..<length A])
      else Inl MatrixError)"

section \<open>Training\<close>

definition select_columns :: "bool \<Rightarrow> ('u, 'i) interaction \<Rightarrow> ('u, 'i) temp_row" where
  "select_columns with_timestamp r =
     \<lparr> t_user = user r, t_item = item r, t_rating = rating r,
       t_timestamp = (if with_timestamp then timestamp r else 0),
       indexed_items = Absent, indexed_users = Absent, unity_rating = Absent \<rparr>"

definition will_load :: "'i disk \<Rightarrow> nat \<Rightarrow> bool \<Rightarrow> bool" where
  "will_load d num_items demo =
     (item_feature_similarity_npy d Experiment num_items \<noteq> None \<or> demo)"

definition prepare_index ::
  "('u, 'i) sar \<Rightarrow> ('u, 'i) interaction list \<Rightarrow> nat \<Rightarrow> bool \<Rightarrow> 'i disk \<Rightarrow> error + ('u, 'i) sar" where
  "prepare_index m df num_items demo d =
     (if will_load d num_items demo
      then load_file m d (if demo then Demo else Experiment) num_items df
      else if index2item m = None then Inr (set_index m df)
      else Inr m)"

definition deduplicate ::
  "('u::linorder, 'i::linorder) sar \<Rightarrow> ('u, 'i) interaction list
     \<Rightarrow> ('u, 'i) sar \<times> ('u, 'i) temp_row list" where
  "deduplicate m df =
     (if time_decay_flag m
      then compute_time_decay m (map (select_columns True) df) RatingCol
      else (m, drop_duplicates_last (map (select_columns False) df)))"

definition map_cell :: "('a \<rightharpoonup> nat) \<Rightarrow> 'a \<Rightarrow> nat cell" where
  "map_cell d x = (case d x of None \<Rightarrow> Missing | Some k \<Rightarrow> Val k)"

definition add_index_columns ::
  "('u, 'i) sar \<Rightarrow> ('u, 'i) temp_row list \<Rightarrow> error + ('u, 'i) temp_row list" where
  "add_index_columns m temp_df =
     (case item2index m of
        None \<Rightarrow> Inl NotFitted
      | Some it2i \<Rightarrow>
         (case user2index m of
            None \<Rightarrow> Inl NotFitted
          | Some u2i \<Rightarrow>
              Inr (map (\<lambda>r. r \<lparr> indexed_items := map_cell it2i (t_item r),
                                indexed_users := map_cell u2i (t_user r) \<rparr>)
                     temp_df)))"

text \<open>The branch \<^verbatim>\<open>if self.normalize\<close> of \<^verbatim>\<open>fit\<close>: the unity column is set on the rows as they
  are at that point, after the de-duplication or the aggregation of the ratings.\<close>

definition unity_stage ::
  "('u::linorder, 'i::linorder) sar \<Rightarrow> ('u, 'i) temp_row list
     \<Rightarrow> error + ('u, 'i) sar \<times> ('u, 'i) temp_row list" where
  "unity_stage m temp_df =
     (if normalize m then
        (let with_unity = map (\<lambda>r. r \<lparr> unity_rating := Val (Fin 1) \<rparr>) temp_df;
             decayed = (if time_decay_flag m then compute_time_decay m with_unity UnityCol
                        else (m, with_unity))
         in case compute_affinity_matrix (fst decayed) (snd decayed) UnityCol of
              Inl e \<Rightarrow> Inl e
            | Inr U \<Rightarrow> Inr ((fst decayed) \<lparr> unity_user_affinity := Some U \<rparr>, snd decayed))
      else Inr (m, temp_df))"

text \<open>The choice of the similarity. The source compares the similarity type with
  \<^verbatim>\<open>is\<close>; the model takes the four constants as distinct values. \<^verbatim>\<open>save_to_file\<close>, which
  writes the feature similarity and the two dictionaries of the item index to the disk,
  changes nothing in the object and is left out.\<close>

definition feature_stage ::
  "('u, 'i) sar \<Rightarrow> bool \<Rightarrow> ('i, 'f) feature_row list \<Rightarrow> 'f col_weights
     \<Rightarrow> (string \<Rightarrow> nat \<Rightarrow> nat \<Rightarrow> fl) \<Rightarrow> error + ('u, 'i) sar" where
  "feature_stage m load features cw content =
     (if load then Inr m
      else (case compute_feature_sim_matrix m cw features content of
              Inl e \<Rightarrow> Inl e
            | Inr F \<Rightarrow> Inr (m \<lparr> features_sim_matrix := Some F \<rparr>)))"

definition similarity_stage ::
  "('u, 'i) sar \<Rightarrow> ndarray \<Rightarrow> dtype \<Rightarrow> bool \<Rightarrow> ('i, 'f) feature_row list \<Rightarrow> 'f col_weights
     \<Rightarrow> (string \<Rightarrow> nat \<Rightarrow> nat \<Rightarrow> fl) \<Rightarrow> error + ('u, 'i) sar" where
  "similarity_stage m C rating_dtype load features cw content =
     (case similarity_type m of
        COOCCUR \<Rightarrow> Inr (m \<lparr> item_similarity := Some C \<rparr>)
      | JACCARD \<Rightarrow> Inr (m \<lparr> item_similarity := Some (map (map (astype rating_dtype)) (jaccard C)) \<rparr>)
      | LIFT \<Rightarrow> Inr (m \<lparr> item_similarity := Some (map (map (astype rating_dtype)) (lift C)) \<rparr>)
      | CUSTOM \<Rightarrow>
         (case ratings_weight cw of
            None \<Rightarrow> Inl KeyError
          | Some w \<Rightarrow>
             (case feature_stage m load features cw content of
                Inl e \<Rightarrow> Inl e
              | Inr m1 \<Rightarrow>
                 (case features_sim_matrix m1 of
                    None \<Rightarrow> Inl NotFitted
                  | Some F \<Rightarrow>
                     (case iadd (scale w (map (map (astype rating_dtype)) (jaccard C)))
                             (scale (fsub (Fin 1) w) F) of
                        Inl e \<Rightarrow> Inl e
                      | Inr S \<Rightarrow> Inr (m1 \<lparr> item_similarity := Some S \<rparr>))))))"

text \<open>\<^verbatim>\<open>fit\<close>, first part: the index, the check of the rating column, and the rows of
  \<^verbatim>\<open>temp_df\<close> from which the matrices are built.\<close>

definition prepare_rows ::
  "('u::linorder, 'i::linorder) sar \<Rightarrow> ('u, 'i) interaction list \<Rightarrow> dtype \<Rightarrow> nat \<Rightarrow> bool
     \<Rightarrow> 'i disk \<Rightarrow> error + ('u, 'i) sar \<times> ('u, 'i) temp_row list" where
  "prepare_rows m df rating_dtype num_items demo d =
     (case prepare_index m df num_items demo d of
        Inl e \<Rightarrow> Inl e
      | Inr m1 \<Rightarrow>
          if \<not> is_number rating_dtype then Inl InvalidInput
          else
           (case add_index_columns (fst (deduplicate m1 df)) (snd (deduplicate m1 df)) of
              Inl e \<Rightarrow> Inl e
            | Inr temp_df \<Rightarrow> unity_stage (fst (deduplicate m1 df)) temp_df))"

text \<open>\<^verbatim>\<open>fit\<close>, second part: the affinity matrix, the co-occurrence and the
  similarity.\<close>

definition fit ::
  "('u::linorder, 'i::linorder) sar \<Rightarrow> ('u, 'i) interaction list \<Rightarrow> dtype
     \<Rightarrow> ('i, 'f) feature_row list \<Rightarrow> 'f col_weights \<Rightarrow> bool \<Rightarrow> 'i disk
     \<Rightarrow> (string \<Rightarrow> nat \<Rightarrow> nat \<Rightarrow> fl) \<Rightarrow> error + ('u, 'i) sar" where
  "fit m df rating_dtype features cw demo d content =
     (case prepare_rows m df rating_dtype (length features) demo d of
        Inl e \<Rightarrow> Inl e
      | Inr mt \<Rightarrow>
         (case compute_affinity_matrix (fst mt) (snd mt) RatingCol of
            Inl e \<Rightarrow> Inl e
          | Inr A \<Rightarrow>
             (case compute_coocurrence_matrix (fst mt) (snd mt) rating_dtype of
                Inl e \<Rightarrow> Inl e
              | Inr C \<Rightarrow>
                  similarity_stage
                    ((fst mt) \<lparr> user_affinity := Some A,
                               item_frequencies := Some (diagonal C) \<rparr>)
                    C rating_dtype (will_load d (length features) demo)
                    features cw content)))"

section \<open>Scoring\<close>

text \<open>\<^verbatim>\<open>A[user_ids, :].dot(S)\<close> for a sparse \<open>A\<close>: only the stored cells of a row of \<open>A\<close>
  contribute, in the order of the columns. The item similarity is listed densely (see
  \<open>compute_coocurrence_matrix\<close>).\<close>

definition csr_row_dot :: "csr \<Rightarrow> ndarray \<Rightarrow> nat \<Rightarrow> nat \<Rightarrow> nat \<Rightarrow> fl" where
  "csr_row_dot A S n u j =
     fold (\<lambda>k acc. case A (u, k) of None \<Rightarrow> acc | Some a \<Rightarrow> fadd acc (fmul a (S ! k ! j)))
       [0..<n] (Fin 0)"

definition csr_dot :: "csr \<Rightarrow> nat list \<Rightarrow> ndarray \<Rightarrow> nat \<Rightarrow> ndarray" where
  "csr_dot A user_ids S n = map (\<lambda>u. map (csr_row_dot A S n u) [0..<n]) user_ids"

definition square :: "nat \<Rightarrow> ndarray \<Rightarrow> bool" where
  "square n S = (length S = n \<and> (\<forall>row \<in> set S. length row = n))"

text \<open>\<^verbatim>\<open>test_scores += self.user_affinity[user_ids, :] * -np.inf\<close>: the stored cells of the
  affinity rows are multiplied by minus infinity and added; elsewhere zero is added.\<close>

definition add_seen :: "csr \<Rightarrow> nat list \<Rightarrow> ndarray \<Rightarrow> ndarray" where
  "add_seen A user_ids test_scores =
     map2 (\<lambda>u row. map2 (\<lambda>j x. case A (u, j) of None \<Rightarrow> x | Some a \<Rightarrow> fadd x (fmul a MInf))
                     [0..<length row] row)
       user_ids test_scores"

definition nan_to_neg_inf :: "fl \<Rightarrow> fl" where
  "nan_to_neg_inf x = (if isnan x then MInf else x)"

definition divide_scores :: "ndarray \<Rightarrow> ndarray \<Rightarrow> ndarray" where
  "divide_scores num den = map2 (map2 (\<lambda>x y. nan_to_neg_inf (fdiv x y))) num den"

text \<open>A scoring request: the rows \<open>(user, item)\<close> of the table \<^verbatim>\<open>test\<close>.\<close>

definition score ::
  "('u, 'i) sar \<Rightarrow> ('u \<times> 'i) list \<Rightarrow> bool \<Rightarrow> bool \<Rightarrow> error + ndarray" where
  "score m test remove_seen normalize' =
     (case user2index m of
        None \<Rightarrow> Inl NotFitted
      | Some u2i \<Rightarrow>
         (let user_ids = map u2i (unique (map fst test))
          in if None \<in> set user_ids then Inl UnknownEntity
             else
              (case user_affinity m of
                 None \<Rightarrow> Inl NotFitted
               | Some A \<Rightarrow>
                  (case item_similarity m of
                     None \<Rightarrow> Inl NotFitted
                   | Some S \<Rightarrow>
                      (case n_users m of
                         None \<Rightarrow> Inl NotFitted
                       | Some nu \<Rightarrow>
                          (case n_items m of
                             None \<Rightarrow> Inl NotFitted
                           | Some ni \<Rightarrow>
                              if \<exists>u \<in> set user_ids. nu \<le> the u then Inl IndexError
                              else if \<not> square ni S then Inl MatrixError
                              else
                               (let ids = map the user_ids;
                                    raw = csr_dot A ids S ni;
                                    test_scores = (if remove_seen then add_seen A ids raw else raw)
                                in if normalize' then
                                     (case unity_user_affinity m of
                                        None \<Rightarrow> Inl NormalizationUnavailable
                                      | Some U \<Rightarrow>
                                          Inr (divide_scores test_scores (csr_dot U ids S ni)))
                                   else Inr test_scores)))))))"

subsection \<open>Top-K selection\<close>

text \<open>Modelled from the spec: \<^verbatim>\<open>get_top_k_scored_items\<close> is imported from
  \<^verbatim>\<open>reco_utils.common.python_utils\<close>, which is not part of the sources. The specification:
  per row the \<open>k\<close> highest-scoring columns, \<open>k\<close> limited to the number of columns; when
  sorting is requested they are descending by value, ties broken by ascending column
  index; otherwise any order of the same columns is allowed, and the model takes the
  ascending column order. The place of NaN is left open by the specification; the model
  ranks it above every number, as numpy's sorting does.\<close>

fun desc_rank :: "fl \<Rightarrow> nat \<times> real" where
  "desc_rank NaN = (0, 0)"
| "desc_rank PInf = (1, 0)"
| "desc_rank (Fin a) = (2, - a)"
| "desc_rank MInf = (3, 0)"

definition top_k_row :: "nat \<Rightarrow> bool \<Rightarrow> fl list \<Rightarrow> nat list" where
  "top_k_row top_k sort_top_k row =
     (let best = take (min top_k (length row))
                   (sort_key (\<lambda>j. (desc_rank (row ! j), j)) [0..<length row])
      in if sort_top_k then best else sort best)"

definition get_top_k_scored_items :: "ndarray \<Rightarrow> nat \<Rightarrow> bool \<Rightarrow> nat list list \<times> ndarray" where
  "get_top_k_scored_items scores top_k sort_top_k =
     (let top_items = map (top_k_row top_k sort_top_k) scores
      in (top_items, map2 (\<lambda>row js. map (\<lambda>j. row ! j) js) scores top_items))"

subsection \<open>Recommendations from seed items\<close>

text \<open>The table \<^verbatim>\<open>items\<close> of \<^verbatim>\<open>get_item_based_topk\<close>: the item column, and the rating and user
  columns when the table has them. Without a user column the source groups all rows under
  the user \<^verbatim>\<open>0\<close>; the model writes \<open>None\<close> for that user and \<open>Some u\<close> for a user of the
  table.\<close>

record ('u, 'i) seed_row =
  s_item :: 'i
  s_user :: 'u
  s_rating :: fl

record ('u, 'i) seeds =
  seed_rows :: "('u, 'i) seed_row list"
  has_rating :: bool
  has_user :: bool

record ('u, 'i) recommendation =
  r_user :: "'u option"
  r_item :: 'i
  r_prediction :: fl

text \<open>\<^verbatim>\<open>test_scores[user_ids, item_ids] = -np.inf\<close>.\<close>

definition mask_cells :: "(nat \<times> nat) list \<Rightarrow> ndarray \<Rightarrow> ndarray" where
  "mask_cells cells test_scores =
     fold (\<lambda>c M. M [fst c := (M ! fst c) [snd c := MInf]]) cells test_scores"

definition seed_users :: "('u, 'i) seeds \<Rightarrow> 'u option list" where
  "seed_users items =
     map (\<lambda>r. if has_user items then Some (s_user r) else None) (seed_rows items)"

definition seed_user_ids :: "('u, 'i) seeds \<Rightarrow> nat cell list" where
  "seed_user_ids items =
     (if has_user items
      then map (map_cell (py_dict (inverted (enumerate 0 (unique (seed_users items))))))
             (seed_users items)
      else map (\<lambda>r. Val 0) (seed_rows items))"

text \<open>\<^verbatim>\<open>df.replace(-np.inf, np.nan).dropna()\<close>: the rows whose prediction is minus
  infinity or NaN go.\<close>

definition drop_invalid :: "('u, 'i) recommendation list \<Rightarrow> ('u, 'i) recommendation list" where
  "drop_invalid rs = filter (\<lambda>r. r_prediction r \<noteq> MInf \<and> \<not> isnan (r_prediction r)) rs"

definition result_rows ::
  "'u option list \<Rightarrow> 'i list \<Rightarrow> fl list \<Rightarrow> ('u, 'i) recommendation list" where
  "result_rows us its ps =
     map (\<lambda>x. \<lparr> r_user = fst x, r_item = fst (snd x), r_prediction = snd (snd x) \<rparr>)
       (zip us (zip its ps))"

text \<open>\<^verbatim>\<open>get_item_based_topk\<close>, first part: the scores of the pseudo users, with the cells of
  the seed items set to minus infinity.\<close>

definition seed_scores :: "('u, 'i) sar \<Rightarrow> ('u, 'i) seeds \<Rightarrow> error + ndarray" where
  "seed_scores m items =
     (case item2index m of
        None \<Rightarrow> Inl NotFitted
      | Some it2i \<Rightarrow>
         (case item_similarity m of
            None \<Rightarrow> Inl NotFitted
          | Some S \<Rightarrow>
             (case n_items m of
                None \<Rightarrow> Inl NotFitted
              | Some ni \<Rightarrow>
                 (let item_ids = map (\<lambda>r. map_cell it2i (s_item r)) (seed_rows items);
                      ratings = map (\<lambda>r. if has_rating items then s_rating r else Fin 1)
                                  (seed_rows items);
                      user_ids = seed_user_ids items;
                      n_users' = length (unique user_ids)
                  in case coo_tocsr fadd n_users' ni (zip ratings (zip user_ids item_ids)) of
                       Inl e \<Rightarrow> Inl e
                     | Inr pseudo_affinity \<Rightarrow>
                         if \<not> square ni S then Inl MatrixError
                         else Inr (mask_cells
                                     (zip (map cell_val user_ids) (map cell_val item_ids))
                                     (csr_dot pseudo_affinity [0..<n_users'] S ni))))))"

text \<open>\<^verbatim>\<open>get_item_based_topk\<close>, second part: the selection, the table of the results and
  the removal of the invalid rows.\<close>

definition get_item_based_topk ::
  "('u, 'i) sar \<Rightarrow> ('u, 'i) seeds \<Rightarrow> nat \<Rightarrow> bool \<Rightarrow> error + ('u, 'i) recommendation list" where
  "get_item_based_topk m items top_k sort_top_k =
     (case seed_scores m items of
        Inl e \<Rightarrow> Inl e
      | Inr test_scores \<Rightarrow>
         (case index2item m of
            None \<Rightarrow> Inl NotFitted
          | Some i2it \<Rightarrow>
             (let top = get_top_k_scored_items test_scores top_k sort_top_k
              in case those (map i2it (concat (fst top))) of
                   None \<Rightarrow> Inl KeyError
                 | Some names \<Rightarrow>
                     Inr (drop_invalid
                            (result_rows
                               (concat (map (replicate (min top_k (the (n_items m))))
                                          (unique (seed_users items))))
                               names (concat (snd top)))))))"

subsection \<open>Predictions for given pairs\<close>

definition lookup2 :: "ndarray \<Rightarrow> nat \<Rightarrow> nat \<Rightarrow> fl option" where
  "lookup2 M u j = (if u < length M \<and> j < length (M ! u) then Some (M ! u ! j) else None)"

text \<open>\<^verbatim>\<open>np.append(test_scores, np.zeros((self.n_users, 1)), axis=1)\<close>: numpy refuses arrays
  whose numbers of rows differ.\<close>

definition append_zero_column :: "ndarray \<Rightarrow> nat \<Rightarrow> error + ndarray" where
  "append_zero_column test_scores nu =
     (if length test_scores = nu then Inr (map (\<lambda>row. row @ [Fin 0]) test_scores)
      else Inl MatrixError)"

text \<open>\<^verbatim>\<open>predict\<close> returns the table of predictions; the flag tells whether the warning
  "Items found in test not seen during training, new items will have score of 0" was
  logged.\<close>

definition predict ::
  "('u, 'i) sar \<Rightarrow> ('u \<times> 'i) list \<Rightarrow> error + bool \<times> ('u \<times> 'i \<times> fl) list" where
  "predict m test =
     (case score m test False False of
        Inl e \<Rightarrow> Inl e
      | Inr test_scores \<Rightarrow>
         (case user2index m of
            None \<Rightarrow> Inl NotFitted
          | Some u2i \<Rightarrow>
             (case item2index m of
                None \<Rightarrow> Inl NotFitted
              | Some it2i \<Rightarrow>
                 (case n_users m of
                    None \<Rightarrow> Inl NotFitted
                  | Some nu \<Rightarrow>
                     (case n_items m of
                        None \<Rightarrow> Inl NotFitted
                      | Some ni \<Rightarrow>
                         (let user_ids = map (\<lambda>t. the (u2i (fst t))) test;
                              item_ids = map (\<lambda>t. it2i (snd t)) test;
                              nans = (None \<in> set item_ids)
                          in case (if nans then append_zero_column test_scores nu
                                   else Inr test_scores) of
                               Inl e \<Rightarrow> Inl e
                             | Inr scores' \<Rightarrow>
                                 (case those (map2 (\<lambda>u i. lookup2 scores' u
                                                            (case i of None \<Rightarrow> ni | Some k \<Rightarrow> k))
                                                user_ids item_ids) of
                                    None \<Rightarrow> Inl IndexError
                                  | Some ps \<Rightarrow>
                                      Inr (nans, zip (map fst test) (zip (map snd test) ps)))))))))"

section \<open>Notions used in the statements\<close>

text \<open>A row of \<^verbatim>\<open>temp_df\<close> carries the indices that the two dictionaries give to its user
  and its item.\<close>

definition well_indexed :: "('u \<rightharpoonup> nat) \<Rightarrow> ('i \<rightharpoonup> nat) \<Rightarrow> ('u, 'i) temp_row \<Rightarrow> bool" where
  "well_indexed u2i it2i r =
     (u2i (t_user r) \<noteq> None \<and> it2i (t_item r) \<noteq> None
      \<and> indexed_users r = map_cell u2i (t_user r)
      \<and> indexed_items r = map_cell it2i (t_item r))"

text \<open>The pair of identifiers of a row of the interaction table.\<close>

definition pair_of :: "('u, 'i) interaction \<Rightarrow> 'u \<times> 'i" where
  "pair_of x = (user x, item x)"

text \<open>A square matrix is symmetric.\<close>

definition symmetric :: "ndarray \<Rightarrow> bool" where
  "symmetric M = (\<forall>i < length M. \<forall>j < length M. M ! i ! j = M ! j ! i)"

section \<open>Example tables\<close>

text \<open>The scenario of the specification: the users A, B, C are \<open>1, 2, 3\<close> and the items
  x, y, z are \<open>10, 11, 12\<close>; the ratings are A-x 5, A-y 3, B-x 4, B-z 2, C-y 1.\<close>

definition abc_ratings :: "(nat, nat) interaction list" where
  "abc_ratings =
     [\<lparr>user = 1, item = 10, rating = Fin 5, timestamp = 0\<rparr>,
      \<lparr>user = 1, item = 11, rating = Fin 3, timestamp = 0\<rparr>,
      \<lparr>user = 2, item = 10, rating = Fin 4, timestamp = 0\<rparr>,
      \<lparr>user = 2, item = 12, rating = Fin 2, timestamp = 0\<rparr>,
      \<lparr>user = 3, item = 11, rating = Fin 1, timestamp = 0\<rparr>]"

definition empty_disk :: "nat disk" where
  "empty_disk =
     \<lparr> item_feature_similarity_npy = (\<lambda>p k. None),
       index2item_obj = (\<lambda>p k. None),
       item2index_obj = (\<lambda>p k. None) \<rparr>"

definition no_features :: "(nat, unit) feature_row list" where
  "no_features = []"

definition no_weights :: "unit col_weights" where
  "no_weights = \<lparr> ratings_weight = None, feature_weights = [] \<rparr>"

definition zero_content :: "string \<Rightarrow> nat \<Rightarrow> nat \<Rightarrow> fl" where
  "zero_content c a b = Fin 0"

text \<open>A fresh object as \<^verbatim>\<open>SARSingleNode(similarity_type, time_decay_coefficient=1,
  timedecay_formula, threshold=1, normalize)\<close> makes it.\<close>

definition fresh :: "similarity \<Rightarrow> bool \<Rightarrow> bool \<Rightarrow> (nat, nat) sar" where
  "fresh s decay nrm = projr (sar_init s 1 None decay 1 nrm)"

definition abc_model :: "(nat, nat) sar" where
  "abc_model =
     projr (fit (fresh JACCARD False False) abc_ratings Float64 no_features no_weights False
              empty_disk zero_content)"

text \<open>A directory that holds a saved index of two items.\<close>

definition saved_disk :: "nat disk" where
  "saved_disk =
     \<lparr> item_feature_similarity_npy =
         (\<lambda>p k. if p = Experiment \<and> k = 2 then Some [[Fin 1, Fin 0], [Fin 0, Fin 1]] else None),
       index2item_obj =
         (\<lambda>p k. if p = Experiment \<and> k = 2 then Some (py_dict [(0, 10), (1, 11)]) else None),
       item2index_obj =
         (\<lambda>p k. if p = Experiment \<and> k = 2 then Some (py_dict [(10, 0), (11, 1)]) else None) \<rparr>"

text \<open>The same table, with a dislike: A rates x with \<open>-1\<close>.\<close>

definition dislike_ratings :: "(nat, nat) interaction list" where
  "dislike_ratings =
     [\<lparr>user = 1, item = 10, rating = Fin (- 1), timestamp = 0\<rparr>,
      \<lparr>user = 1, item = 11, rating = Fin 3, timestamp = 0\<rparr>,
      \<lparr>user = 2, item = 10, rating = Fin 4, timestamp = 0\<rparr>,
      \<lparr>user = 2, item = 12, rating = Fin 2, timestamp = 0\<rparr>,
      \<lparr>user = 3, item = 11, rating = Fin 1, timestamp = 0\<rparr>]"

definition dislike_model :: "(nat, nat) sar" where
  "dislike_model =
     projr (fit (fresh JACCARD False False) dislike_ratings Float64 no_features no_weights False
              empty_disk zero_content)"


text \<open>A table in which A interacts twice with x, one day apart, all ratings \<open>1.0\<close>.\<close>

definition twice_ratings :: "(nat, nat) interaction list" where
  "twice_ratings =
     [\<lparr>user = 1, item = 10, rating = Fin 1, timestamp = 0\<rparr>,
      \<lparr>user = 1, item = 10, rating = Fin 1, timestamp = 86400\<rparr>,
      \<lparr>user = 2, item = 10, rating = Fin 1, timestamp = 86400\<rparr>]"

text \<open>The model trained on it with time decay (half-life one day) and normalization.\<close>

definition twice_model :: "(nat, nat) sar" where
  "twice_model =
     projr (fit (fresh JACCARD True True) twice_ratings Float64 no_features no_weights False
              empty_disk zero_content)"

text \<open>The rows from which the matrices of the scenario are built.\<close>

definition abc_rows :: "(nat, nat) sar \<times> (nat, nat) temp_row list" where
  "abc_rows =
     projr (prepare_rows (fresh JACCARD False False) abc_ratings Float64 0 False empty_disk)"

text \<open>A table in which the last row of the pair (A, x) is not its most recent one: A rates
  x with \<open>5\<close> at time \<open>10\<close>, and the row that follows holds the rating \<open>3\<close> of time
  \<open>5\<close>.\<close>

definition stale_ratings :: "(nat, nat) interaction list" where
  "stale_ratings =
     [\<lparr>user = 1, item = 10, rating = Fin 5, timestamp = 10\<rparr>,
      \<lparr>user = 1, item = 10, rating = Fin 3, timestamp = 5\<rparr>]"

definition stale_model :: "(nat, nat) sar" where
  "stale_model =
     projr (fit (fresh JACCARD False False) stale_ratings Float64 no_features no_weights False
              empty_disk zero_content)"

text \<open>A table of two items x and y, both rated by A, and two feature tables for the custom
  similarity: one with a row for each item, and one in which the item x is listed twice and
  y is missing. The feature similarity \<open>same_tag\<close> is symmetric. \<open>stale_content\<close> is a
  content of the uninitialised array of \<^verbatim>\<open>make_sim_matrix\<close>.\<close>

definition pair_ratings :: "(nat, nat) interaction list" where
  "pair_ratings =
     [\<lparr>user = 1, item = 10, rating = Fin 1, timestamp = 0\<rparr>,
      \<lparr>user = 1, item = 11, rating = Fin 1, timestamp = 0\<rparr>]"

definition same_tag :: "nat \<Rightarrow> nat \<Rightarrow> fl" where
  "same_tag a b = (if a = b then Fin 1 else Fin 0)"

definition half_weights :: "nat col_weights" where
  "half_weights =
     \<lparr> ratings_weight = Some (Fin (1 / 2)),
       feature_weights = [(''tags'', Fin 1, same_tag)] \<rparr>"

definition tag_features :: "(nat, nat) feature_row list" where
  "tag_features =
     [\<lparr>f_itemid = 10, f_col = (\<lambda>c. 0)\<rparr>, \<lparr>f_itemid = 11, f_col = (\<lambda>c. 1)\<rparr>]"

definition repeated_features :: "(nat, nat) feature_row list" where
  "repeated_features =
     [\<lparr>f_itemid = 10, f_col = (\<lambda>c. 0)\<rparr>, \<lparr>f_itemid = 10, f_col = (\<lambda>c. 1)\<rparr>]"

definition stale_content :: "string \<Rightarrow> nat \<Rightarrow> nat \<Rightarrow> fl" where
  "stale_content c a b = (if a = 0 \<and> b = 1 then Fin 1 else Fin 0)"

definition tag_model :: "(nat, nat) sar" where
  "tag_model =
     projr (fit (fresh CUSTOM False False) pair_ratings Float64 tag_features half_weights
              False empty_disk stale_content)"

text \<open>The cold-start scenario of the specification: the seed set is the item x with the
  rating \<open>1\<close>, without a grouping user. The table \<open>inf_seed\<close> holds the same item with the
  rating plus infinity.\<close>

definition x_seed :: "(nat, nat) seeds" where
  "x_seed = \<lparr> seed_rows = [\<lparr>s_item = 10, s_user = 0, s_rating = Fin 1\<rparr>],
               has_rating = True, has_user = False \<rparr>"

definition inf_seed :: "(nat, nat) seeds" where
  "inf_seed = \<lparr> seed_rows = [\<lparr>s_item = 10, s_user = 0, s_rating = PInf\<rparr>],
                 has_rating = True, has_user = False \<rparr>"

section \<open>Properties of the identity index\<close>

lemma set_unique [simp]: "set (unique xs) = set xs"
  by (simp add: unique_def)

lemma distinct_unique [simp]: "distinct (unique xs)"
  by (simp add: unique_def)

lemma py_dict_snoc: "py_dict (kvs @ [kv]) = (py_dict kvs)(fst kv \<mapsto> snd kv)"
  by (simp add: py_dict_def)

lemma py_dict_map_of: "py_dict kvs = map_of (rev kvs)"
proof (induction kvs rule: rev_induct)
  case Nil
  show ?case by (simp add: py_dict_def)
next
  case (snoc kv kvs)
  have "map_of (rev (kvs @ [kv])) = (map_of (rev kvs))(fst kv \<mapsto> snd kv)"
    by (cases kv) simp
  then show ?case
    by (simp only: py_dict_snoc snoc.IH)
qed

lemma dom_py_dict: "dom (py_dict kvs) = fst ` set kvs"
  by (simp add: py_dict_map_of dom_map_of_conv_image_fst)

lemma len_user_dict: "len (py_dict (inverted (enumerate 0 (unique xs)))) = card (set xs)"
proof -
  have "fst ` set (inverted (enumerate 0 (unique xs))) = snd ` set (enumerate 0 (unique xs))"
    by (force simp: inverted_def)
  also have "\<dots> = set (map snd (enumerate 0 (unique xs)))"
    by (simp only: set_map)
  also have "\<dots> = set xs"
    by (simp only: map_snd_enumerate set_unique)
  finally show ?thesis
    by (simp add: len_def dom_py_dict)
qed

lemma fst_inverted: "map fst (inverted kvs) = map snd kvs"
  by (simp add: inverted_def)

lemma keys_inverted_enumerate: "fst ` set (inverted (enumerate 0 xs)) = set xs"
proof -
  have "fst ` set (inverted (enumerate 0 xs)) = set (map fst (inverted (enumerate 0 xs)))"
    by (simp only: set_map)
  then show ?thesis
    by (simp only: fst_inverted map_snd_enumerate)
qed

lemma index_dict_Some:
  assumes "distinct xs"
  shows "py_dict (inverted (enumerate 0 xs)) x = Some k \<longleftrightarrow> k < length xs \<and> xs ! k = x"
proof -
  have "map fst (rev (inverted (enumerate 0 xs))) = rev xs"
    by (simp add: rev_map [symmetric] fst_inverted)
  then have "distinct (map fst (rev (inverted (enumerate 0 xs))))"
    using assms by simp
  then have "map_of (rev (inverted (enumerate 0 xs))) x = Some k
               \<longleftrightarrow> (x, k) \<in> set (rev (inverted (enumerate 0 xs)))"
    by (rule map_of_eq_Some_iff)
  also have "\<dots> \<longleftrightarrow> (k, x) \<in> set (enumerate 0 xs)"
    by (force simp: inverted_def)
  also have "\<dots> \<longleftrightarrow> k < length xs \<and> xs ! k = x"
    by (simp add: in_set_enumerate_eq)
  finally show ?thesis
    by (simp add: py_dict_map_of)
qed

lemma index_dict_None: "py_dict (inverted (enumerate 0 xs)) x = None \<longleftrightarrow> x \<notin> set xs"
proof -
  have "dom (py_dict (inverted (enumerate 0 xs))) = set xs"
    by (simp only: dom_py_dict keys_inverted_enumerate)
  then show ?thesis
    by (metis domIff)
qed

lemma item_dict: "py_dict (enumerate 0 xs) k = (if k < length xs then Some (xs ! k) else None)"
proof (cases "k < length xs")
  case True
  have "distinct (map fst (rev (enumerate 0 xs)))"
    by (simp add: rev_map [symmetric])
  then have "map_of (rev (enumerate 0 xs)) k = Some (xs ! k)
               \<longleftrightarrow> (k, xs ! k) \<in> set (rev (enumerate 0 xs))"
    by (rule map_of_eq_Some_iff)
  then show ?thesis
    using True by (simp add: py_dict_map_of in_set_enumerate_eq)
next
  case False
  have "dom (py_dict (enumerate 0 xs)) = set (map fst (enumerate 0 xs))"
    by (simp only: dom_py_dict set_map)
  then have "k \<notin> dom (py_dict (enumerate 0 xs))"
    using False by simp
  then show ?thesis
    using False by (simp add: domIff)
qed

lemma len_index_dict:
  "distinct xs \<Longrightarrow> len (py_dict (inverted (enumerate 0 xs))) = length xs"
proof -
  assume d: "distinct xs"
  have "dom (py_dict (inverted (enumerate 0 xs))) = set xs"
    by (simp only: dom_py_dict keys_inverted_enumerate)
  then show ?thesis
    using d by (simp add: len_def distinct_card)
qed

lemma len_item_dict: "len (py_dict (enumerate 0 xs)) = length xs"
proof -
  have "dom (py_dict (enumerate 0 xs)) = set (map fst (enumerate 0 xs))"
    by (simp only: dom_py_dict set_map)
  then show ?thesis
    by (simp add: len_def)
qed

lemma set_index_fields:
  "user2index (set_index m df) = Some (py_dict (inverted (enumerate 0 (unique (map user df)))))"
  "item2index (set_index m df) = Some (py_dict (inverted (enumerate 0 (unique (map item df)))))"
  "index2item (set_index m df) = Some (py_dict (enumerate 0 (unique (map item df))))"
  "n_users (set_index m df) = Some (length (unique (map user df)))"
  "n_items (set_index m df) = Some (length (unique (map item df)))"
  "threshold (set_index m df) = threshold m"
  "time_decay_flag (set_index m df) = time_decay_flag m"
  "normalize (set_index m df) = normalize m"
  "similarity_type (set_index m df) = similarity_type m"
  by (simp_all add: set_index_def Let_def len_index_dict len_item_dict)

section \<open>De-duplication keeps one row per pair\<close>

lemma key_in_keys: "r' \<in> set rs \<Longrightarrow> f r' = k \<Longrightarrow> k \<in> set (map f rs)"
  by auto

lemma keys_conv: "k \<in> set (map f rs) \<longleftrightarrow> (\<exists>r \<in> set rs. f r = k)"
  by (induction rs) auto

lemma drop_duplicates_keys:
  "set (map row_key (drop_duplicates_last rs)) = set (map row_key rs)"
proof (induction rs)
  case Nil
  show ?case by simp
next
  case (Cons r rs)
  show ?case
  proof (cases "\<exists>r' \<in> set rs. row_key r' = row_key r")
    case True
    then obtain r' where "r' \<in> set rs" "row_key r' = row_key r"
      by blast
    then have "row_key r \<in> set (map row_key rs)"
      by (rule key_in_keys)
    then show ?thesis
      using Cons True by auto
  next
    case False
    then show ?thesis
      using Cons by simp
  qed
qed

lemma drop_duplicates_subset: "set (drop_duplicates_last rs) \<subseteq> set rs"
  by (induction rs) auto

lemma drop_duplicates_distinct: "distinct (map row_key (drop_duplicates_last rs))"
proof (induction rs)
  case Nil
  show ?case by simp
next
  case (Cons r rs)
  show ?case
  proof (cases "\<exists>r' \<in> set rs. row_key r' = row_key r")
    case True
    then show ?thesis using Cons by simp
  next
    case False
    then have "row_key r \<notin> set (map row_key rs)"
      by (simp only: keys_conv) simp
    then have "row_key r \<notin> set (map row_key (drop_duplicates_last rs))"
      by (simp only: drop_duplicates_keys) simp
    then show ?thesis
      using Cons False by simp
  qed
qed

lemma drop_duplicates_last_iff:
  "r \<in> set (drop_duplicates_last rs)
     \<longleftrightarrow> (\<exists>pre post. rs = pre @ r # post \<and> (\<forall>y \<in> set post. row_key y \<noteq> row_key r))"
proof (induction rs)
  case Nil
  show ?case by simp
next
  case (Cons r0 rs)
  show ?case
  proof
    assume a: "r \<in> set (drop_duplicates_last (r0 # rs))"
    show "\<exists>pre post. r0 # rs = pre @ r # post \<and> (\<forall>y \<in> set post. row_key y \<noteq> row_key r)"
    proof (cases "r \<in> set (drop_duplicates_last rs)")
      case True
      then obtain pre post where "rs = pre @ r # post" "\<forall>y \<in> set post. row_key y \<noteq> row_key r"
        using Cons by blast
      then have "r0 # rs = (r0 # pre) @ r # post \<and> (\<forall>y \<in> set post. row_key y \<noteq> row_key r)"
        by simp
      then show ?thesis by blast
    next
      case False
      with a have "r = r0" "\<not> (\<exists>r' \<in> set rs. row_key r' = row_key r0)"
        by (auto split: if_splits)
      then have "r0 # rs = [] @ r # rs \<and> (\<forall>y \<in> set rs. row_key y \<noteq> row_key r)"
        by auto
      then show ?thesis by blast
    qed
  next
    assume "\<exists>pre post. r0 # rs = pre @ r # post \<and> (\<forall>y \<in> set post. row_key y \<noteq> row_key r)"
    then obtain pre post where e: "r0 # rs = pre @ r # post"
      and l: "\<forall>y \<in> set post. row_key y \<noteq> row_key r"
      by blast
    show "r \<in> set (drop_duplicates_last (r0 # rs))"
    proof (cases pre)
      case Nil
      with e l show ?thesis by auto
    next
      case (Cons p pre')
      with e have "rs = pre' @ r # post" by simp
      with l have "r \<in> set (drop_duplicates_last rs)"
        using Cons.IH by blast
      then show ?thesis by simp
    qed
  qed
qed

section \<open>Aggregation keeps one row per pair\<close>

lemma groupby_keys: "map row_key (groupby_sum df) = sort (remdups (map row_key df))"
  by (simp add: groupby_sum_def sum_group_def row_key_def comp_def)

lemma groupby_distinct: "distinct (map row_key (groupby_sum df))"
  by (simp add: groupby_keys)

lemma groupby_key_set: "set (map row_key (groupby_sum df)) = set (map row_key df)"
  by (simp add: groupby_keys)

lemma filter_key_singleton:
  "distinct (map f xs) \<Longrightarrow> x \<in> set xs \<Longrightarrow> filter (\<lambda>y. f y = f x) xs = [x]"
proof (induction xs)
  case Nil
  then show ?case by simp
next
  case (Cons a xs)
  show ?case
  proof (cases "x = a")
    case True
    have "f a \<notin> set (map f xs)"
      using Cons.prems(1) by simp
    then have "\<not> (\<exists>y \<in> set xs. f y = f a)"
      by (simp only: keys_conv) simp
    then have "filter (\<lambda>y. f y = f a) xs = []"
      by (simp add: filter_empty_conv)
    then show ?thesis using True by simp
  next
    case False
    then have "x \<in> set xs" using Cons.prems(2) by simp
    moreover have "f a \<noteq> f x"
    proof
      assume "f a = f x"
      then have "f a \<in> set (map f xs)"
        using \<open>x \<in> set xs\<close> by (simp only: keys_conv) metis
      then show False
        using Cons.prems(1) by simp
    qed
    ultimately show ?thesis using Cons by simp
  qed
qed

lemma groupby_singletons:
  assumes "distinct (map row_key df)"
  shows "set (groupby_sum df) = (\<lambda>x. sum_group (row_key x) [x]) ` set df"
proof -
  have "set (groupby_sum df)
          = (\<lambda>k. sum_group k (filter (\<lambda>r. row_key r = k) df)) ` set (map row_key df)"
    by (simp add: groupby_sum_def)
  also have "\<dots> = (\<lambda>x. sum_group (row_key x) (filter (\<lambda>r. row_key r = row_key x) df)) ` set df"
    by (simp add: image_image)
  also have "\<dots> = (\<lambda>x. sum_group (row_key x) [x]) ` set df"
    using filter_key_singleton [OF assms] by (intro image_cong) simp_all
  finally show ?thesis .
qed

section \<open>The rows from which the matrices are built\<close>

lemma row_key_select [simp]: "row_key (select_columns b x) = pair_of x"
  by (simp add: row_key_def select_columns_def pair_of_def)

lemma row_key_scale [simp]: "row_key (scale_column c w r) = row_key r"
  by (cases c) (simp_all add: row_key_def scale_column_def)

lemma row_key_sum_group [simp]: "row_key (sum_group k rs) = k"
  by (simp add: row_key_def sum_group_def)

lemma compute_time_decay_keys:
  "set (map row_key (snd (compute_time_decay m df c))) = set (map row_key df)"
  "distinct (map row_key (snd (compute_time_decay m df c)))"
proof -
  let ?f = "\<lambda>r. case (case time_now m of None \<Rightarrow> series_max (map t_timestamp df) | Some t \<Rightarrow> Some t) of
                   None \<Rightarrow> r
                 | Some t \<Rightarrow> scale_column c
                      (Fin (exponential_decay (t_timestamp r) t (time_decay_half_life m))) r"
  have k: "map row_key (map ?f df) = map row_key df"
    by (auto split: option.splits)
  have s: "snd (compute_time_decay m df c) = groupby_sum (map ?f df)"
    by (simp add: compute_time_decay_def Let_def)
  show "set (map row_key (snd (compute_time_decay m df c))) = set (map row_key df)"
    unfolding s groupby_key_set k ..
  show "distinct (map row_key (snd (compute_time_decay m df c)))"
    unfolding s by (rule groupby_distinct)
qed

lemma compute_time_decay_model:
  "fst (compute_time_decay m df c) = m\<lparr>time_now := time_now (fst (compute_time_decay m df c))\<rparr>"
  by (simp add: compute_time_decay_def Let_def)

lemma deduplicate_keys:
  "set (map row_key (snd (deduplicate m df))) = set (map pair_of df)"
  "distinct (map row_key (snd (deduplicate m df)))"
proof -
  have a: "map row_key (map (select_columns b) df) = map pair_of df" for b
    by simp
  show "set (map row_key (snd (deduplicate m df))) = set (map pair_of df)"
    by (simp add: deduplicate_def compute_time_decay_keys drop_duplicates_keys a
          del: set_map map_map)
  show "distinct (map row_key (snd (deduplicate m df)))"
    by (simp add: deduplicate_def compute_time_decay_keys drop_duplicates_distinct)
qed

lemma deduplicate_model:
  "fst (deduplicate m df) = m\<lparr>time_now := time_now (fst (deduplicate m df))\<rparr>"
  using compute_time_decay_model [of m "map (select_columns True) df" RatingCol]
  by (simp add: deduplicate_def)


lemma add_index_columns_ok:
  assumes "item2index m = Some it2i" and "user2index m = Some u2i"
  shows "add_index_columns m rows
           = Inr (map (\<lambda>r. r\<lparr>indexed_items := map_cell it2i (t_item r),
                                indexed_users := map_cell u2i (t_user r)\<rparr>) rows)"
  using assms by (simp add: add_index_columns_def)

lemma well_indexed_sum_group:
  assumes "well_indexed u2i it2i x"
  shows "well_indexed u2i it2i (sum_group (row_key x) [x])"
  using assms
  by (auto simp: well_indexed_def sum_group_def row_key_def sum_index_def map_cell_def
        cell_val_def split: option.splits)

lemma well_indexed_scale:
  "well_indexed u2i it2i (scale_column c w r) = well_indexed u2i it2i r"
  by (cases c) (simp_all add: well_indexed_def scale_column_def)

lemma compute_time_decay_indexed:
  assumes "distinct (map row_key df)" and "\<forall>r \<in> set df. well_indexed u2i it2i r"
  shows "\<forall>r \<in> set (snd (compute_time_decay m df c)). well_indexed u2i it2i r"
proof -
  let ?f = "\<lambda>r. case (case time_now m of None \<Rightarrow> series_max (map t_timestamp df) | Some t \<Rightarrow> Some t) of
                   None \<Rightarrow> r
                 | Some t \<Rightarrow> scale_column c
                      (Fin (exponential_decay (t_timestamp r) t (time_decay_half_life m))) r"
  have k: "map row_key (map ?f df) = map row_key df"
    by (auto split: option.splits)
  have w: "\<forall>r \<in> set (map ?f df). well_indexed u2i it2i r"
    using assms(2) by (auto simp: well_indexed_scale split: option.splits)
  have s: "snd (compute_time_decay m df c) = groupby_sum (map ?f df)"
    by (simp add: compute_time_decay_def Let_def)
  have d: "distinct (map row_key (map ?f df))"
    using assms(1) by (simp only: k)
  show ?thesis
    unfolding s groupby_singletons [OF d] using w well_indexed_sum_group by blast
qed

lemma unity_stage_rows:
  assumes "unity_stage m rows = Inr mt"
    and "distinct (map row_key rows)"
    and "\<forall>r \<in> set rows. well_indexed u2i it2i r"
  shows "set (map row_key (snd mt)) = set (map row_key rows)"
    and "distinct (map row_key (snd mt))"
    and "\<forall>r \<in> set (snd mt). well_indexed u2i it2i r"
proof -
  let ?u = "map (\<lambda>r. r\<lparr>unity_rating := Val (Fin 1)\<rparr>) rows"
  have ku: "map row_key ?u = map row_key rows"
    by (simp add: row_key_def)
  have wu: "\<forall>r \<in> set ?u. well_indexed u2i it2i r"
    using assms(3) by (simp add: well_indexed_def)
  have du: "distinct (map row_key ?u)"
    using assms(2) by (simp only: ku)
  consider (plain) "snd mt = rows" | (unity) "snd mt = ?u"
    | (decay) "snd mt = snd (compute_time_decay m ?u UnityCol)"
    using assms(1)
    by (auto simp: unity_stage_def Let_def split: if_splits sum.splits)
  then have "set (map row_key (snd mt)) = set (map row_key rows)
           \<and> distinct (map row_key (snd mt))
           \<and> (\<forall>r \<in> set (snd mt). well_indexed u2i it2i r)"
  proof cases
    case plain
    then show ?thesis using assms(2,3) by simp
  next
    case unity
    then show ?thesis using ku wu du by (simp del: set_map map_map)
  next
    case decay
    then show ?thesis
      using compute_time_decay_keys [of m ?u UnityCol]
        compute_time_decay_indexed [OF du wu, of m UnityCol] ku
      by (simp del: set_map map_map)
  qed
  then show "set (map row_key (snd mt)) = set (map row_key rows)"
    and "distinct (map row_key (snd mt))"
    and "\<forall>r \<in> set (snd mt). well_indexed u2i it2i r"
    by blast+
qed

lemma unity_stage_model:
  assumes "unity_stage m rows = Inr mt"
  shows "\<exists>t U. fst mt = m\<lparr>time_now := t, unity_user_affinity := U\<rparr>"
proof -
  have a: "m = m\<lparr>time_now := time_now m, unity_user_affinity := unity_user_affinity m\<rparr>"
    by simp
  show ?thesis
  proof (cases "normalize m")
    case False
    then have "fst mt = m" using assms by (auto simp: unity_stage_def)
    then show ?thesis using a by metis
  next
    case True
    let ?u = "map (\<lambda>r. r\<lparr>unity_rating := Val (Fin 1)\<rparr>) rows"
    show ?thesis
    proof (cases "time_decay_flag m")
      case False
      with True assms obtain U where "fst mt = m\<lparr>unity_user_affinity := Some U\<rparr>"
        by (auto simp: unity_stage_def Let_def split: sum.splits)
      then have "fst mt = m\<lparr>time_now := time_now m, unity_user_affinity := Some U\<rparr>"
        by simp
      then show ?thesis by blast
    next
      case f: True
      with True assms obtain U where
        "fst mt = (fst (compute_time_decay m ?u UnityCol))\<lparr>unity_user_affinity := Some U\<rparr>"
        by (auto simp: unity_stage_def Let_def split: sum.splits)
      then have "fst mt = m\<lparr>time_now := time_now (fst (compute_time_decay m ?u UnityCol)),
                              unity_user_affinity := Some U\<rparr>"
        using compute_time_decay_model [of m ?u UnityCol] by metis
      then show ?thesis by blast
    qed
  qed
qed

lemma prepare_rows_fresh:
  assumes p: "prepare_rows m df dt n demo d = Inr mt"
    and fresh: "index2item m = None" and noload: "\<not> will_load d n demo"
  shows "user2index (fst mt) = Some (py_dict (inverted (enumerate 0 (unique (map user df)))))"
    and "item2index (fst mt) = Some (py_dict (inverted (enumerate 0 (unique (map item df)))))"
    and "index2item (fst mt) = Some (py_dict (enumerate 0 (unique (map item df))))"
    and "n_users (fst mt) = Some (length (unique (map user df)))"
    and "n_items (fst mt) = Some (length (unique (map item df)))"
    and "threshold (fst mt) = threshold m"
    and "similarity_type (fst mt) = similarity_type m"
    and "distinct (map row_key (snd mt))"
    and "set (map row_key (snd mt)) = set (map pair_of df)"
    and "\<forall>r \<in> set (snd mt). well_indexed (py_dict (inverted (enumerate 0 (unique (map user df)))))
                                   (py_dict (inverted (enumerate 0 (unique (map item df))))) r"
proof -
  let ?u2i = "py_dict (inverted (enumerate 0 (unique (map user df))))"
  let ?it2i = "py_dict (inverted (enumerate 0 (unique (map item df))))"
  let ?m1 = "set_index m df"
  let ?m2 = "fst (deduplicate ?m1 df)"
  let ?rows1 = "snd (deduplicate ?m1 df)"
  let ?g = "\<lambda>r. r\<lparr>indexed_items := map_cell ?it2i (t_item r),
                    indexed_users := map_cell ?u2i (t_user r)\<rparr>"
  have pi: "prepare_index m df n demo d = Inr ?m1"
    using fresh noload by (simp add: prepare_index_def)
  have m2: "?m2 = ?m1\<lparr>time_now := time_now ?m2\<rparr>"
    by (rule deduplicate_model)
  have i2: "item2index ?m2 = Some ?it2i" "user2index ?m2 = Some ?u2i"
    by (subst m2, simp add: set_index_fields)+
  have a: "add_index_columns ?m2 ?rows1 = Inr (map ?g ?rows1)"
    using add_index_columns_ok [OF i2] .
  have u: "unity_stage ?m2 (map ?g ?rows1) = Inr mt"
    using p pi a by (simp add: prepare_rows_def split: if_splits)
  have kg: "map row_key (map ?g ?rows1) = map row_key ?rows1"
    by (simp add: row_key_def)
  have dg: "distinct (map row_key (map ?g ?rows1))"
    by (simp only: kg deduplicate_keys)
  have wg: "\<forall>r \<in> set (map ?g ?rows1). well_indexed ?u2i ?it2i r"
  proof
    fix r assume "r \<in> set (map ?g ?rows1)"
    then obtain r1 where r1: "r1 \<in> set ?rows1" "r = ?g r1"
      by auto
    then have "row_key r1 \<in> set (map row_key ?rows1)"
      by simp
    then have "row_key r1 \<in> set (map pair_of df)"
      by (simp only: deduplicate_keys)
    then obtain x where x: "x \<in> set df" "pair_of x = row_key r1"
      by auto
    then have "user x = t_user r1" "item x = t_item r1"
      by (simp_all add: pair_of_def row_key_def)
    then have "t_user r1 \<in> set (map user df)" "t_item r1 \<in> set (map item df)"
      using x(1) by (simp_all only: keys_conv) blast+
    then have "?u2i (t_user r1) \<noteq> None" "?it2i (t_item r1) \<noteq> None"
      by (simp_all add: index_dict_None)
    then show "well_indexed ?u2i ?it2i r"
      using r1(2) by (simp add: well_indexed_def)
  qed
  obtain t U where fm: "fst mt = ?m2\<lparr>time_now := t, unity_user_affinity := U\<rparr>"
    using unity_stage_model [OF u] by blast
  have fm': "fst mt = ?m1\<lparr>time_now := t, unity_user_affinity := U\<rparr>"
    by (subst fm, subst m2, simp)
  show "user2index (fst mt) = Some ?u2i" "item2index (fst mt) = Some ?it2i"
    "index2item (fst mt) = Some (py_dict (enumerate 0 (unique (map item df))))"
    "n_users (fst mt) = Some (length (unique (map user df)))"
    "n_items (fst mt) = Some (length (unique (map item df)))"
    "threshold (fst mt) = threshold m"
    "similarity_type (fst mt) = similarity_type m"
    by (simp_all add: fm' set_index_fields)
  show "distinct (map row_key (snd mt))"
    using unity_stage_rows(2) [OF u dg wg] .
  show "set (map row_key (snd mt)) = set (map pair_of df)"
    using unity_stage_rows(1) [OF u dg wg] by (simp only: kg deduplicate_keys)
  show "\<forall>r \<in> set (snd mt). well_indexed ?u2i ?it2i r"
    using unity_stage_rows(3) [OF u dg wg] .
qed

section \<open>Sparse matrices with one entry per cell\<close>

lemma coo_fold_distinct:
  assumes "distinct (map coord es)" and "\<forall>e \<in> set es. A0 (coord e) = None"
  shows "fold (coo_add add) es A0 = A0 ++ map_of (map (\<lambda>e. (coord e, fst e)) es)"
  using assms
proof (induction es arbitrary: A0)
  case Nil
  show ?case by simp
next
  case (Cons e es)
  have n: "A0 (coord e) = None"
    using Cons.prems(2) by simp
  then have step: "coo_add add e A0 = A0(coord e \<mapsto> fst e)"
    by (simp add: coo_add_def)
  have "coord e \<notin> set (map coord es)"
    using Cons.prems(1) by simp
  then have ne: "\<forall>e' \<in> set es. coord e' \<noteq> coord e"
    by (simp only: keys_conv) blast
  have fresh: "\<forall>e' \<in> set es. (A0(coord e \<mapsto> fst e)) (coord e') = None"
    using Cons.prems(2) ne by simp
  have "dom (map_of (map (\<lambda>e. (coord e, fst e)) es)) = set (map coord es)"
    by (simp add: dom_map_of_conv_image_fst image_image)
  then have notin: "coord e \<notin> dom (map_of (map (\<lambda>e. (coord e, fst e)) es))"
    using \<open>coord e \<notin> set (map coord es)\<close> by simp
  have d: "distinct (map coord es)"
    using Cons.prems(1) by simp
  have ih: "fold (coo_add add) es (A0(coord e \<mapsto> fst e))
              = A0(coord e \<mapsto> fst e) ++ map_of (map (\<lambda>e. (coord e, fst e)) es)"
    by (rule Cons.IH [OF d fresh])
  have "fold (coo_add add) (e # es) A0 = fold (coo_add add) es (coo_add add e A0)"
    by simp
  also have "\<dots> = A0(coord e \<mapsto> fst e) ++ map_of (map (\<lambda>e. (coord e, fst e)) es)"
    by (simp only: step ih)
  also have "\<dots> = (A0 ++ map_of (map (\<lambda>e. (coord e, fst e)) es))(coord e \<mapsto> fst e)"
    using notin by (rule map_add_upd_left)
  also have "\<dots> = A0 ++ map_of (map (\<lambda>e. (coord e, fst e)) (e # es))"
    by simp
  finally show ?case .
qed

lemma coo_rows:
  fixes v :: "('u, 'i) temp_row \<Rightarrow> 'a"
  assumes d: "distinct (map row_key rows)"
    and w: "\<forall>r \<in> set rows. well_indexed u2i it2i r"
    and inj_u: "\<And>x y k. u2i x = Some k \<Longrightarrow> u2i y = Some k \<Longrightarrow> x = y"
    and inj_i: "\<And>x y k. it2i x = Some k \<Longrightarrow> it2i y = Some k \<Longrightarrow> x = y"
    and rng_u: "\<And>x k. u2i x = Some k \<Longrightarrow> k < nu"
    and rng_i: "\<And>x k. it2i x = Some k \<Longrightarrow> k < ni"
  shows "\<exists>A. coo_tocsr add nu ni (map (\<lambda>r. (v r, indexed_users r, indexed_items r)) rows) = Inr A
           \<and> (\<forall>a b c. A (a, b) = Some c
                 \<longleftrightarrow> (\<exists>r \<in> set rows. u2i (t_user r) = Some a \<and> it2i (t_item r) = Some b
                                     \<and> v r = c))"
proof -
  let ?es = "map (\<lambda>r. (v r, indexed_users r, indexed_items r)) rows"
  let ?c = "\<lambda>r. (the (u2i (t_user r)), the (it2i (t_item r)))"
  have cell: "indexed_users r = Val (the (u2i (t_user r))) \<and> indexed_items r = Val (the (it2i (t_item r)))
              \<and> u2i (t_user r) = Some (the (u2i (t_user r)))
              \<and> it2i (t_item r) = Some (the (it2i (t_item r)))"
    if "r \<in> set rows" for r
    using w that by (auto simp: well_indexed_def map_cell_def)
  have ce: "map (\<lambda>e. (coord e, fst e)) ?es = map (\<lambda>r. (?c r, v r)) rows"
    using cell by (simp add: coord_def cell_val_def)
  have shape: "\<forall>e \<in> set ?es. cell_lt (fst (snd e)) nu \<and> cell_lt (snd (snd e)) ni"
  proof
    fix e assume "e \<in> set ?es"
    then obtain r where r: "r \<in> set rows" "e = (v r, indexed_users r, indexed_items r)"
      by auto
    show "cell_lt (fst (snd e)) nu \<and> cell_lt (snd (snd e)) ni"
      using cell [OF r(1)] rng_u [of "t_user r"] rng_i [of "t_item r"] r(2)
      by (simp add: cell_lt_def)
  qed
  have inj: "inj_on ?c (set rows)"
  proof (rule inj_onI)
    fix r r' assume r: "r \<in> set rows" "r' \<in> set rows" "?c r = ?c r'"
    have e: "the (u2i (t_user r)) = the (u2i (t_user r'))"
      "the (it2i (t_item r)) = the (it2i (t_item r'))"
      using r(3) by simp_all
    have "u2i (t_user r) = Some (the (u2i (t_user r)))"
      using cell [OF r(1)] by blast
    moreover have "u2i (t_user r') = Some (the (u2i (t_user r)))"
      using cell [OF r(2)] e(1) by metis
    ultimately have tu: "t_user r = t_user r'"
      by (rule inj_u)
    have "it2i (t_item r) = Some (the (it2i (t_item r)))"
      using cell [OF r(1)] by blast
    moreover have "it2i (t_item r') = Some (the (it2i (t_item r)))"
      using cell [OF r(2)] e(2) by metis
    ultimately have "t_item r = t_item r'"
      by (rule inj_i)
    with tu have "row_key r = row_key r'"
      by (simp add: row_key_def)
    then show "r = r'"
      using d r(1,2) by (simp add: distinct_map inj_on_def)
  qed
  have dr: "distinct rows"
    using d by (simp add: distinct_map)
  have dc: "distinct (map ?c rows)"
    using dr inj by (simp add: distinct_map)
  have "map coord ?es = map fst (map (\<lambda>e. (coord e, fst e)) ?es)"
    by simp
  also have "\<dots> = map ?c rows"
    by (simp only: ce) simp
  finally have mc: "map coord ?es = map ?c rows" .
  have dce: "distinct (map coord ?es)"
    by (simp only: mc dc)
  have "fold (coo_add add) ?es Map.empty
          = Map.empty ++ map_of (map (\<lambda>e. (coord e, fst e)) ?es)"
    by (rule coo_fold_distinct [OF dce]) simp
  then have fold_eq: "fold (coo_add add) ?es Map.empty = map_of (map (\<lambda>r. (?c r, v r)) rows)"
    by (simp only: ce empty_map_add)
  have res: "coo_tocsr add nu ni ?es = Inr (map_of (map (\<lambda>r. (?c r, v r)) rows))"
    using shape fold_eq by (simp add: coo_tocsr_def)
  have dk: "distinct (map fst (map (\<lambda>r. (?c r, v r)) rows))"
    using dc by (simp add: comp_def)
  have "map_of (map (\<lambda>r. (?c r, v r)) rows) (a, b) = Some c
          \<longleftrightarrow> (\<exists>r \<in> set rows. u2i (t_user r) = Some a \<and> it2i (t_item r) = Some b \<and> v r = c)"
    for a b c
  proof -
    have "map_of (map (\<lambda>r. (?c r, v r)) rows) (a, b) = Some c
            \<longleftrightarrow> ((a, b), c) \<in> set (map (\<lambda>r. (?c r, v r)) rows)"
      using dk by (rule map_of_eq_Some_iff)
    also have "\<dots> \<longleftrightarrow> (\<exists>r \<in> set rows. ?c r = (a, b) \<and> v r = c)"
      by (simp only: keys_conv) auto
    also have "\<dots> \<longleftrightarrow> (\<exists>r \<in> set rows. u2i (t_user r) = Some a \<and> it2i (t_item r) = Some b
                                    \<and> v r = c)"
      using cell by (metis fst_conv snd_conv option.sel)
    finally show ?thesis .
  qed
  with res show ?thesis
    by blast
qed

lemma sum_indicator:
  "(\<Sum>u \<leftarrow> xs. (if P u then 1 else 0) * (if P u then 1 else 0)) = int (length (filter P xs))"
  by (induction xs) simp_all

lemma length_filter_upt: "length (filter P [0..<n]) = card {u. u < n \<and> P u}"
proof -
  have "length (filter P [0..<n]) = card {i. i < length [0..<n] \<and> P ([0..<n] ! i)}"
    by (rule length_filter_conv_card)
  also have "{i. i < length [0..<n] \<and> P ([0..<n] ! i)} = {u. u < n \<and> P u}"
    by auto
  finally show ?thesis .
qed

lemma card_positions:
  assumes "distinct xs"
  shows "card {u. u < length xs \<and> Q (xs ! u)} = card {x \<in> set xs. Q x}"
proof -
  have "{x \<in> set xs. Q x} = nth xs ` {u. u < length xs \<and> Q (xs ! u)}"
    by (auto simp: set_conv_nth)
  moreover have "inj_on (nth xs) {u. u < length xs \<and> Q (xs ! u)}"
    using assms by (intro inj_on_nth) auto
  ultimately show ?thesis
    by (simp add: card_image)
qed

lemma astype_of_count: "is_number dt \<Longrightarrow> astype dt (of_count c) = of_count c"
  by (simp add: astype_def of_count_def)

lemma threshold_mask_eq: "threshold_mask t c = (if c < t then 0 else c)"
  by (simp add: threshold_mask_def)

lemma prepare_rows_number: "prepare_rows m df dt n demo d = Inr mt \<Longrightarrow> is_number dt"
  by (auto simp: prepare_rows_def split: sum.splits if_splits)

lemma index_dict_inj:
  assumes "distinct xs"
    and "py_dict (inverted (enumerate 0 xs)) x = Some k"
    and "py_dict (inverted (enumerate 0 xs)) y = Some k"
  shows "x = y"
  using assms by (simp add: index_dict_Some)

lemma index_dict_range:
  assumes "distinct xs" and "py_dict (inverted (enumerate 0 xs)) x = Some k"
  shows "k < length xs"
  using assms by (simp add: index_dict_Some)

text \<open>The stored cells of the incidence matrix of a fresh fit.\<close>

lemma fresh_hits:
  assumes p: "prepare_rows m df dt n demo d = Inr mt"
    and fresh: "index2item m = None" and noload: "\<not> will_load d n demo"
  shows "\<exists>hits. user_item_hits (fst mt) (snd mt) = Inr hits
           \<and> (\<forall>u k. u < length (unique (map user df)) \<longrightarrow> k < length (unique (map item df)) \<longrightarrow>
                 entry hits (u, k)
                   = (if (unique (map user df) ! u, unique (map item df) ! k) \<in> set (map pair_of df)
                      then 1 else 0))"
proof -
  let ?us = "unique (map user df)"
  let ?its = "unique (map item df)"
  let ?u2i = "py_dict (inverted (enumerate 0 ?us))"
  let ?it2i = "py_dict (inverted (enumerate 0 ?its))"
  note F = prepare_rows_fresh [OF p fresh noload]
  have ex: "\<exists>A. coo_tocsr (+) (length ?us) (length ?its)
                 (map (\<lambda>r. (1 :: int, indexed_users r, indexed_items r)) (snd mt)) = Inr A
             \<and> (\<forall>a b c. A (a, b) = Some c
                   \<longleftrightarrow> (\<exists>r \<in> set (snd mt). ?u2i (t_user r) = Some a
                                            \<and> ?it2i (t_item r) = Some b \<and> 1 = c))"
  proof (rule coo_rows [OF F(8) F(10)])
    show "\<And>x y k. ?u2i x = Some k \<Longrightarrow> ?u2i y = Some k \<Longrightarrow> x = y"
      by (rule index_dict_inj [OF distinct_unique])
    show "\<And>x y k. ?it2i x = Some k \<Longrightarrow> ?it2i y = Some k \<Longrightarrow> x = y"
      by (rule index_dict_inj [OF distinct_unique])
    show "\<And>x k. ?u2i x = Some k \<Longrightarrow> k < length ?us"
      by (rule index_dict_range [OF distinct_unique])
    show "\<And>x k. ?it2i x = Some k \<Longrightarrow> k < length ?its"
      by (rule index_dict_range [OF distinct_unique])
  qed
  then obtain hits where
    c: "coo_tocsr (+) (length ?us) (length ?its)
          (map (\<lambda>r. (1 :: int, indexed_users r, indexed_items r)) (snd mt)) = Inr hits"
    and h: "\<And>a b c. hits (a, b) = Some c
              \<longleftrightarrow> (\<exists>r \<in> set (snd mt). ?u2i (t_user r) = Some a \<and> ?it2i (t_item r) = Some b
                                          \<and> 1 = c)"
    by blast
  have uh: "user_item_hits (fst mt) (snd mt) = Inr hits"
    using c F(4,5) by (simp add: user_item_hits_def)
  have e: "entry hits (u, k) = (if (?us ! u, ?its ! k) \<in> set (map pair_of df) then 1 else 0)"
    if u: "u < length ?us" and k: "k < length ?its" for u k
  proof -
    have "(\<exists>r \<in> set (snd mt). ?u2i (t_user r) = Some u \<and> ?it2i (t_item r) = Some k)
            \<longleftrightarrow> (\<exists>r \<in> set (snd mt). row_key r = (?us ! u, ?its ! k))"
    proof -
      have "?u2i (t_user r) = Some u \<and> ?it2i (t_item r) = Some k
              \<longleftrightarrow> row_key r = (?us ! u, ?its ! k)" for r
        using u k by (auto simp: index_dict_Some row_key_def)
      then show ?thesis by simp
    qed
    also have "\<dots> \<longleftrightarrow> (?us ! u, ?its ! k) \<in> set (map row_key (snd mt))"
      by (simp only: keys_conv)
    also have "\<dots> \<longleftrightarrow> (?us ! u, ?its ! k) \<in> set (map pair_of df)"
      by (simp only: F(9))
    finally have iff: "(\<exists>r \<in> set (snd mt). ?u2i (t_user r) = Some u \<and> ?it2i (t_item r) = Some k)
                         \<longleftrightarrow> (?us ! u, ?its ! k) \<in> set (map pair_of df)" .
    show ?thesis
    proof (cases "(?us ! u, ?its ! k) \<in> set (map pair_of df)")
      case True
      then have "hits (u, k) = Some 1"
        using iff h [of u k 1] by simp
      then show ?thesis using True by (simp add: entry_def)
    next
      case False
      have "hits (u, k) = None"
      proof (rule ccontr)
        assume "hits (u, k) \<noteq> None"
        then obtain c where "hits (u, k) = Some c"
          by auto
        then have "\<exists>r \<in> set (snd mt). ?u2i (t_user r) = Some u \<and> ?it2i (t_item r) = Some k
                                       \<and> 1 = c"
          by (simp only: h)
        then have "\<exists>r \<in> set (snd mt). ?u2i (t_user r) = Some u \<and> ?it2i (t_item r) = Some k"
          by blast
        then show False
          using iff False by blast
      qed
      then show ?thesis using False by (simp add: entry_def)
    qed
  qed
  from uh e show ?thesis by blast
qed

lemma users_of_item:
  assumes "distinct us" and "set us = user ` set df"
  shows "card {u. u < length us \<and> (us ! u, i) \<in> set (map pair_of df)}
           = card (user ` {y \<in> set df. item y = i})"
proof -
  have "card {u. u < length us \<and> (us ! u, i) \<in> set (map pair_of df)}
          = card {x \<in> set us. (x, i) \<in> set (map pair_of df)}"
    by (rule card_positions [OF assms(1)])
  also have "{x \<in> set us. (x, i) \<in> set (map pair_of df)} = user ` {y \<in> set df. item y = i}"
    using assms(2) by (auto simp: pair_of_def image_iff)
  finally show ?thesis .
qed

lemma cooccurrence_cells:
  assumes "user_item_hits m rows = Inr hits"
    and "n_users m = Some nu" and "n_items m = Some ni" and "is_number dt"
  shows "\<exists>C. compute_coocurrence_matrix m rows dt = Inr C \<and> length C = ni
           \<and> (\<forall>i < ni. length (C ! i) = ni)
           \<and> (\<forall>i < ni. \<forall>j < ni.
                 C ! i ! j = of_count (if item_cooccurrence hits nu i j < threshold m then 0
                                       else item_cooccurrence hits nu i j))"
  using assms
  by (simp add: compute_coocurrence_matrix_def astype_of_count threshold_mask_eq)

section \<open>The parts of a fit\<close>

lemma feature_stage_fields:
  assumes "feature_stage m load features cw content = Inr m1"
  shows "\<exists>F. m1 = m\<lparr>features_sim_matrix := F\<rparr>"
proof (cases load)
  case True
  then have "m1 = m\<lparr>features_sim_matrix := features_sim_matrix m\<rparr>"
    using assms by (simp add: feature_stage_def)
  then show ?thesis ..
next
  case False
  then show ?thesis
    using assms by (auto simp: feature_stage_def split: sum.splits)
qed

lemma similarity_stage_fields:
  assumes "similarity_stage m C dt load features cw content = Inr m'"
  shows "\<exists>F S. m' = m\<lparr>features_sim_matrix := F, item_similarity := Some S\<rparr>"
proof (cases "similarity_type m")
  case CUSTOM
  with assms obtain w m1 F S where "feature_stage m load features cw content = Inr m1"
    and "m' = m1\<lparr>item_similarity := Some S\<rparr>"
    by (auto simp: similarity_stage_def split: option.splits sum.splits)
  then show ?thesis
    using feature_stage_fields [of m load features cw content m1] by auto
next
  case COOCCUR
  with assms have "m' = m\<lparr>features_sim_matrix := features_sim_matrix m, item_similarity := Some C\<rparr>"
    by (auto simp: similarity_stage_def)
  then show ?thesis by blast
next
  case JACCARD
  with assms have "m' = m\<lparr>features_sim_matrix := features_sim_matrix m,
                          item_similarity := Some (map (map (astype dt)) (jaccard C))\<rparr>"
    by (auto simp: similarity_stage_def)
  then show ?thesis by blast
next
  case LIFT
  with assms have "m' = m\<lparr>features_sim_matrix := features_sim_matrix m,
                          item_similarity := Some (map (map (astype dt)) (lift C))\<rparr>"
    by (auto simp: similarity_stage_def)
  then show ?thesis by blast
qed

lemma fit_parts:
  assumes "fit m df dt features cw demo d content = Inr m'"
  shows "\<exists>mt A C. prepare_rows m df dt (length features) demo d = Inr mt
           \<and> compute_affinity_matrix (fst mt) (snd mt) RatingCol = Inr A
           \<and> compute_coocurrence_matrix (fst mt) (snd mt) dt = Inr C
           \<and> similarity_stage ((fst mt)\<lparr>user_affinity := Some A,
                                         item_frequencies := Some (diagonal C)\<rparr>)
                 C dt (will_load d (length features) demo) features cw content = Inr m'"
  using assms by (auto simp: fit_def split: sum.splits)

lemma fit_fields:
  assumes "fit m df dt features cw demo d content = Inr m'"
  shows "\<exists>mt A. prepare_rows m df dt (length features) demo d = Inr mt
           \<and> compute_affinity_matrix (fst mt) (snd mt) RatingCol = Inr A
           \<and> user_affinity m' = Some A
           \<and> user2index m' = user2index (fst mt) \<and> item2index m' = item2index (fst mt)
           \<and> index2item m' = index2item (fst mt)
           \<and> n_users m' = n_users (fst mt) \<and> n_items m' = n_items (fst mt)
           \<and> unity_user_affinity m' = unity_user_affinity (fst mt)"
proof -
  obtain mt A C where parts: "prepare_rows m df dt (length features) demo d = Inr mt"
    "compute_affinity_matrix (fst mt) (snd mt) RatingCol = Inr A"
    "similarity_stage ((fst mt)\<lparr>user_affinity := Some A, item_frequencies := Some (diagonal C)\<rparr>)
       C dt (will_load d (length features) demo) features cw content = Inr m'"
    using fit_parts [OF assms] by blast
  obtain F S where "m' = (fst mt)\<lparr>user_affinity := Some A, item_frequencies := Some (diagonal C),
                                   features_sim_matrix := F, item_similarity := Some S\<rparr>"
    using similarity_stage_fields [OF parts(3)] by auto
  with parts(1,2) show ?thesis
    by auto
qed

lemma prepare_rows_no_decay:
  assumes p: "prepare_rows m df dt n demo d = Inr mt"
    and fresh: "index2item m = None" and noload: "\<not> will_load d n demo"
    and nd: "\<not> time_decay_flag m"
  shows "map (\<lambda>r. (row_key r, t_rating r)) (snd mt)
           = map (\<lambda>r. (row_key r, t_rating r)) (drop_duplicates_last (map (select_columns False) df))"
proof -
  let ?m1 = "set_index m df"
  let ?D = "drop_duplicates_last (map (select_columns False) df)"
  have nd1: "\<not> time_decay_flag ?m1"
    using nd by (simp add: set_index_fields)
  then have ded: "deduplicate ?m1 df = (?m1, ?D)"
    by (simp add: deduplicate_def)
  have pi: "prepare_index m df n demo d = Inr ?m1"
    using fresh noload by (simp add: prepare_index_def)
  obtain rows2 where a: "add_index_columns ?m1 ?D = Inr rows2"
    and u: "unity_stage ?m1 rows2 = Inr mt"
    using p pi ded by (auto simp: prepare_rows_def split: sum.splits if_splits)
  have r2: "map (\<lambda>r. (row_key r, t_rating r)) rows2 = map (\<lambda>r. (row_key r, t_rating r)) ?D"
    using a by (auto simp: add_index_columns_def row_key_def split: option.splits)
  have "snd mt = rows2 \<or> snd mt = map (\<lambda>r. r\<lparr>unity_rating := Val (Fin 1)\<rparr>) rows2"
    using u nd1 by (auto simp: unity_stage_def Let_def split: if_splits sum.splits)
  then have "map (\<lambda>r. (row_key r, t_rating r)) (snd mt) = map (\<lambda>r. (row_key r, t_rating r)) rows2"
    by (auto simp: row_key_def)
  with r2 show ?thesis
    by simp
qed

lemma last_row_kept:
  assumes "df = pre @ x # post" and "\<forall>y \<in> set post. pair_of y \<noteq> pair_of x"
  shows "select_columns b x \<in> set (drop_duplicates_last (map (select_columns b) df))"
proof -
  have "map (select_columns b) df
          = map (select_columns b) pre @ select_columns b x # map (select_columns b) post"
    using assms(1) by simp
  moreover have "\<forall>y \<in> set (map (select_columns b) post). row_key y \<noteq> row_key (select_columns b x)"
    using assms(2) by simp
  ultimately show ?thesis
    unfolding drop_duplicates_last_iff by blast
qed

lemma no_decay_rows:
  assumes "\<not> time_decay_flag m"
  shows "snd (deduplicate m df) = drop_duplicates_last (map (select_columns False) df)"
  using assms by (simp add: deduplicate_def)

lemma kept_rows_iff:
  "r \<in> set (drop_duplicates_last (map (select_columns b) df))
     \<longleftrightarrow> (\<exists>pre x post. df = pre @ x # post \<and> r = select_columns b x
                           \<and> (\<forall>y \<in> set post. pair_of y \<noteq> pair_of x))"
proof
  assume "r \<in> set (drop_duplicates_last (map (select_columns b) df))"
  then obtain pre' post' where e: "map (select_columns b) df = pre' @ r # post'"
    and l: "\<forall>y \<in> set post'. row_key y \<noteq> row_key r"
    unfolding drop_duplicates_last_iff by blast
  from e have "\<exists>us vs. df = us @ vs \<and> pre' = map (select_columns b) us
                 \<and> r # post' = map (select_columns b) vs"
    by (rule iffD1 [OF map_eq_append_conv])
  then obtain pre where "\<exists>vs. df = pre @ vs \<and> pre' = map (select_columns b) pre
                 \<and> r # post' = map (select_columns b) vs" ..
  then obtain rest where pr: "df = pre @ rest \<and> pre' = map (select_columns b) pre
                 \<and> r # post' = map (select_columns b) rest" ..
  then have df: "df = pre @ rest" and rest: "r # post' = map (select_columns b) rest"
    by simp_all
  from rest have "\<exists>z zs. rest = z # zs \<and> r = select_columns b z
                    \<and> post' = map (select_columns b) zs"
    by (rule iffD1 [OF Cons_eq_map_conv])
  then obtain x where "\<exists>zs. rest = x # zs \<and> r = select_columns b x
                    \<and> post' = map (select_columns b) zs" ..
  then obtain post where xp: "rest = x # post \<and> r = select_columns b x
                    \<and> post' = map (select_columns b) post" ..
  then have x: "rest = x # post" "r = select_columns b x"
    "post' = map (select_columns b) post"
    by simp_all
  have "\<forall>y \<in> set post. pair_of y \<noteq> pair_of x"
  proof
    fix y assume "y \<in> set post"
    then have "select_columns b y \<in> set post'"
      using x(3) by simp
    then have "row_key (select_columns b y) \<noteq> row_key r"
      using l by blast
    then show "pair_of y \<noteq> pair_of x"
      using x(2) by simp
  qed
  with df x(1,2) have "df = pre @ x # post \<and> r = select_columns b x
                      \<and> (\<forall>y \<in> set post. pair_of y \<noteq> pair_of x)"
    by simp
  then show "\<exists>pre x post. df = pre @ x # post \<and> r = select_columns b x
                      \<and> (\<forall>y \<in> set post. pair_of y \<noteq> pair_of x)"
    by (intro exI)
next
  assume "\<exists>pre x post. df = pre @ x # post \<and> r = select_columns b x
            \<and> (\<forall>y \<in> set post. pair_of y \<noteq> pair_of x)"
  then obtain pre where "\<exists>x post. df = pre @ x # post \<and> r = select_columns b x
            \<and> (\<forall>y \<in> set post. pair_of y \<noteq> pair_of x)" ..
  then obtain x where "\<exists>post. df = pre @ x # post \<and> r = select_columns b x
            \<and> (\<forall>y \<in> set post. pair_of y \<noteq> pair_of x)" ..
  then obtain post where "df = pre @ x # post \<and> r = select_columns b x
            \<and> (\<forall>y \<in> set post. pair_of y \<noteq> pair_of x)" ..
  then have "df = pre @ x # post" "r = select_columns b x"
    "\<forall>y \<in> set post. pair_of y \<noteq> pair_of x"
    by simp_all
  then show "r \<in> set (drop_duplicates_last (map (select_columns b) df))"
    using last_row_kept [of df pre x post b] by simp
qed



lemma fresh_affinity:
  assumes p: "prepare_rows m df dt n demo d = Inr mt"
    and fresh: "index2item m = None" and noload: "\<not> will_load d n demo"
  shows "\<exists>A. compute_affinity_matrix (fst mt) (snd mt) col = Inr A
           \<and> (\<forall>a b c. A (a, b) = Some c
                 \<longleftrightarrow> (\<exists>r \<in> set (snd mt).
                        py_dict (inverted (enumerate 0 (unique (map user df)))) (t_user r) = Some a
                      \<and> py_dict (inverted (enumerate 0 (unique (map item df)))) (t_item r) = Some b
                      \<and> col_value col r = c))"
proof -
  let ?us = "unique (map user df)"
  let ?its = "unique (map item df)"
  let ?u2i = "py_dict (inverted (enumerate 0 ?us))"
  let ?it2i = "py_dict (inverted (enumerate 0 ?its))"
  note F = prepare_rows_fresh [OF p fresh noload]
  have "\<exists>A. coo_tocsr fadd (length ?us) (length ?its)
               (map (\<lambda>r. (col_value col r, indexed_users r, indexed_items r)) (snd mt)) = Inr A
           \<and> (\<forall>a b c. A (a, b) = Some c
                 \<longleftrightarrow> (\<exists>r \<in> set (snd mt). ?u2i (t_user r) = Some a \<and> ?it2i (t_item r) = Some b
                                         \<and> col_value col r = c))"
  proof (rule coo_rows [OF F(8) F(10)])
    show "\<And>x y k. ?u2i x = Some k \<Longrightarrow> ?u2i y = Some k \<Longrightarrow> x = y"
      by (rule index_dict_inj [OF distinct_unique])
    show "\<And>x y k. ?it2i x = Some k \<Longrightarrow> ?it2i y = Some k \<Longrightarrow> x = y"
      by (rule index_dict_inj [OF distinct_unique])
    show "\<And>x k. ?u2i x = Some k \<Longrightarrow> k < length ?us"
      by (rule index_dict_range [OF distinct_unique])
    show "\<And>x k. ?it2i x = Some k \<Longrightarrow> k < length ?its"
      by (rule index_dict_range [OF distinct_unique])
  qed
  then show ?thesis
    using F(4,5) by (simp add: compute_affinity_matrix_def)
qed


section \<open>Symmetry of the matrices\<close>

lemma fadd_commute: "fadd x y = fadd y x"
  by (cases x; cases y) simp_all

lemma fmul_commute: "fmul x y = fmul y x"
  by (cases x; cases y) (simp_all add: mult.commute)

lemma item_cooccurrence_commute: "item_cooccurrence hits nu i j = item_cooccurrence hits nu j i"
  by (simp add: item_cooccurrence_def mult.commute)

text \<open>A square symmetric matrix stays so under the cell-wise operations of \<^verbatim>\<open>fit\<close>.\<close>

lemma square_nth: "square n M \<Longrightarrow> i < n \<Longrightarrow> length (M ! i) = n"
  by (simp add: square_def)

lemma square_length: "square n M \<Longrightarrow> length M = n"
  by (simp add: square_def)

lemma square_map: "square n M \<Longrightarrow> square n (map (map f) M)"
  by (simp add: square_def)

lemma symmetric_map:
  assumes "square n M" and "symmetric M"
  shows "symmetric (map (map f) M)"
  using assms by (simp add: symmetric_def square_def)

lemma square_scale: "square n M \<Longrightarrow> square n (scale w M)"
  by (simp add: scale_def square_map)

lemma symmetric_scale: "square n M \<Longrightarrow> symmetric M \<Longrightarrow> symmetric (scale w M)"
  by (simp add: scale_def symmetric_map)

lemma cooccurrence_symmetric:
  assumes "compute_coocurrence_matrix m rows dt = Inr C" and "n_items m = Some ni"
  shows "square ni C" and "symmetric C"
proof -
  obtain hits where h: "user_item_hits m rows = Inr hits"
    using assms(1) by (auto simp: compute_coocurrence_matrix_def split: sum.splits)
  have C: "C = map (\<lambda>i. map (\<lambda>j. astype dt (of_count (threshold_mask (threshold m)
                     (item_cooccurrence hits (the (n_users m)) i j)))) [0..<ni]) [0..<ni]"
    using assms h by (simp add: compute_coocurrence_matrix_def)
  show "square ni C"
    by (simp add: C square_def)
  show "symmetric C"
    by (simp add: C symmetric_def item_cooccurrence_commute)
qed

lemma square_jaccard: "square n C \<Longrightarrow> square n (jaccard C)"
  by (simp add: jaccard_def square_def)

lemma symmetric_jaccard: "symmetric C \<Longrightarrow> symmetric (jaccard C)"
  by (simp add: jaccard_def symmetric_def fadd_commute)

lemma square_lift: "square n C \<Longrightarrow> square n (lift C)"
  by (simp add: lift_def square_def)

lemma symmetric_lift: "symmetric C \<Longrightarrow> symmetric (lift C)"
  by (simp add: lift_def symmetric_def fmul_commute)

lemma square_zeros: "square n (zeros n n)"
  by (simp add: zeros_def square_def)

lemma symmetric_zeros: "symmetric (zeros n n)"
  by (simp add: zeros_def symmetric_def)

lemma square_add_arrays: "square n A \<Longrightarrow> square n B \<Longrightarrow> square n (add_arrays A B)"
  by (auto simp: add_arrays_def square_def set_zip)

lemma symmetric_add_arrays:
  assumes "square n A" and "square n B" and "symmetric A" and "symmetric B"
  shows "symmetric (add_arrays A B)"
  using assms by (simp add: add_arrays_def symmetric_def square_def)

lemma ncols_square: "square n M \<Longrightarrow> ncols M = n"
  by (cases M) (auto simp: square_def ncols_def)

lemma iadd_symmetric:
  assumes "iadd A B = Inr S" and "square n A" and "square k B"
    and "symmetric A" and "symmetric B"
  shows "square n S" and "symmetric S"
proof -
  have S: "S = map (\<lambda>i. map (\<lambda>j. fadd (A ! i ! j)
                                   (B ! (if length B = 1 then 0 else i)
                                      ! (if ncols B = 1 then 0 else j)))
                          [0..<n]) [0..<n]"
    using assms(1,2) by (simp add: iadd_def ncols_square square_length split: if_splits)
  have k: "length B = k" "ncols B = k"
    using assms(3) by (simp_all add: ncols_square square_length)
  have kn: "k = n \<or> k = 1"
    using assms(1,2) k by (auto simp: iadd_def ncols_square square_length split: if_splits)
  show "square n S"
    by (simp add: S square_def)
  have a: "length A = n"
    using assms(2) by (rule square_length)
  show "symmetric S"
    using assms(4,5) kn k a by (auto simp: S symmetric_def)
qed

text \<open>The nested loops of \<^verbatim>\<open>make_sim_matrix\<close>: of the writes to a cell, the last one stays.\<close>

lemma py_dict_Cons:
  "py_dict (kv # kvs) b
     = (case py_dict kvs b of Some y \<Rightarrow> Some y
        | None \<Rightarrow> if b = fst kv then Some (snd kv) else None)"
  by (cases kv) (simp add: py_dict_map_of map_add_def split: option.splits)

lemma sim_write_Inr:
  assumes "sim_write it2i feats col f i j M = Inr M'"
  shows "\<exists>a b. it2i (f_itemid (feats ! i)) = Some a \<and> it2i (f_itemid (feats ! j)) = Some b
           \<and> a < length M \<and> b < length M
           \<and> M' = M [a := (M ! a) [b := f (f_col (feats ! i) col) (f_col (feats ! j) col)]]"
  using assms by (auto simp: sim_write_def split: option.splits if_splits)

lemma square_update:
  assumes "square n M"
  shows "square n (M [a := (M ! a) [b := v]])"
proof (cases "a < length M")
  case True
  then show ?thesis
    using assms by (auto simp: square_def all_set_conv_all_nth nth_list_update)
next
  case False
  then show ?thesis
    using assms by (simp add: list_update_beyond)
qed

lemma update_cell:
  assumes "square n M" and "a < n" and "b < n" and "a' < n" and "b' < n"
  shows "M [a := (M ! a) [b := v]] ! a' ! b' = (if a' = a \<and> b' = b then v else M ! a' ! b')"
  using assms by (auto simp: square_def nth_list_update)

lemma inner_loop:
  assumes "for_each (sim_write it2i feats col f i) js M = Inr M'" and "square n M"
  shows "square n M' \<and>
         (\<forall>a < n. \<forall>b < n.
            M' ! a ! b
              = (if a = the (it2i (f_itemid (feats ! i)))
                 then (case py_dict (map (\<lambda>j. (the (it2i (f_itemid (feats ! j))),
                                               f_col (feats ! j) col)) js) b of
                         Some y \<Rightarrow> f (f_col (feats ! i) col) y
                       | None \<Rightarrow> M ! a ! b)
                 else M ! a ! b))"
  using assms
proof (induction js arbitrary: M)
  case Nil
  then show ?case by (simp add: py_dict_def)
next
  case (Cons j js)
  let ?kv = "\<lambda>j. (the (it2i (f_itemid (feats ! j))), f_col (feats ! j) col)"
  from Cons.prems(1) obtain M1 where s: "sim_write it2i feats col f i j M = Inr M1"
    and r: "for_each (sim_write it2i feats col f i) js M1 = Inr M'"
    by (auto split: sum.splits)
  from sim_write_Inr [OF s] obtain a0 bj where
    ab: "it2i (f_itemid (feats ! i)) = Some a0" "it2i (f_itemid (feats ! j)) = Some bj"
        "a0 < length M" "bj < length M"
    and M1: "M1 = M [a0 := (M ! a0) [bj := f (f_col (feats ! i) col) (f_col (feats ! j) col)]]"
    by blast
  have n: "length M = n"
    using Cons.prems(2) by (rule square_length)
  have sq1: "square n M1"
    unfolding M1 using Cons.prems(2) by (rule square_update)
  note IH = Cons.IH [OF r sq1]
  have cell1: "M1 ! a ! b = (if a = a0 \<and> b = bj
                            then f (f_col (feats ! i) col) (f_col (feats ! j) col)
                            else M ! a ! b)"
    if "a < n" "b < n" for a b
    unfolding M1 using update_cell [OF Cons.prems(2) _ _ that] ab(3,4) n by simp
  show ?case
  proof (intro conjI allI impI)
    show "square n M'" using IH by blast
  next
    fix a b assume a: "a < n" and b: "b < n"
    have c2: "M' ! a ! b = (if a = a0
                        then (case py_dict (map ?kv js) b of
                                Some y \<Rightarrow> f (f_col (feats ! i) col) y
                              | None \<Rightarrow> M1 ! a ! b)
                        else M1 ! a ! b)"
      using IH a b ab(1) by simp
    have V: "py_dict (map ?kv (j # js)) b
               = (case py_dict (map ?kv js) b of Some y \<Rightarrow> Some y
                  | None \<Rightarrow> if b = bj then Some (f_col (feats ! j) col) else None)"
      using ab(2) by (simp add: py_dict_Cons split: option.splits)
    have a0: "the (it2i (f_itemid (feats ! i))) = a0"
      using ab(1) by simp
    show "M' ! a ! b
              = (if a = the (it2i (f_itemid (feats ! i)))
                 then (case py_dict (map ?kv (j # js)) b of
                         Some y \<Rightarrow> f (f_col (feats ! i) col) y
                       | None \<Rightarrow> M ! a ! b)
                 else M ! a ! b)"
    proof (cases "py_dict (map ?kv js) b")
      case None
      show ?thesis
        by (simp only: c2 cell1 [OF a b] V a0 None) simp
    next
      case (Some y)
      show ?thesis
        by (simp only: c2 cell1 [OF a b] V a0 Some) simp
    qed
  qed
qed

lemma outer_loop:
  assumes "for_each (\<lambda>i. for_each (sim_write it2i feats col f i) js) is M = Inr M'"
    and "square n M"
  shows "square n M' \<and>
         (\<forall>a < n. \<forall>b < n.
            M' ! a ! b
              = (case py_dict (map (\<lambda>j. (the (it2i (f_itemid (feats ! j))),
                                          f_col (feats ! j) col)) is) a of
                   Some x \<Rightarrow>
                     (case py_dict (map (\<lambda>j. (the (it2i (f_itemid (feats ! j))),
                                              f_col (feats ! j) col)) js) b of
                        Some y \<Rightarrow> f x y
                      | None \<Rightarrow> M ! a ! b)
                 | None \<Rightarrow> M ! a ! b))"
  using assms
proof (induction "is" arbitrary: M)
  case Nil
  then show ?case by (simp add: py_dict_def)
next
  case (Cons i "is")
  let ?kv = "\<lambda>j. (the (it2i (f_itemid (feats ! j))), f_col (feats ! j) col)"
  from Cons.prems(1) obtain M1 where s: "for_each (sim_write it2i feats col f i) js M = Inr M1"
    and r: "for_each (\<lambda>i. for_each (sim_write it2i feats col f i) js) is M1 = Inr M'"
    by (auto split: sum.splits)
  note I = inner_loop [OF s Cons.prems(2)]
  then have sq1: "square n M1" by blast
  note IH = Cons.IH [OF r sq1]
  show ?case
  proof (intro conjI allI impI)
    show "square n M'" using IH by blast
  next
    fix a b assume a: "a < n" and b: "b < n"
    have 1: "M1 ! a ! b = (if a = the (it2i (f_itemid (feats ! i)))
                 then (case py_dict (map ?kv js) b of
                         Some y \<Rightarrow> f (f_col (feats ! i) col) y
                       | None \<Rightarrow> M ! a ! b)
                 else M ! a ! b)"
      using I a b by blast
    have 2: "M' ! a ! b = (case py_dict (map ?kv is) a of
                   Some x \<Rightarrow> (case py_dict (map ?kv js) b of Some y \<Rightarrow> f x y | None \<Rightarrow> M1 ! a ! b)
                 | None \<Rightarrow> M1 ! a ! b)"
      using IH a b by blast
    have V: "py_dict (map ?kv (i # is)) a
               = (case py_dict (map ?kv is) a of Some x \<Rightarrow> Some x
                  | None \<Rightarrow> if a = the (it2i (f_itemid (feats ! i)))
                            then Some (f_col (feats ! i) col) else None)"
      by (simp add: py_dict_Cons split: option.splits)
    show "M' ! a ! b = (case py_dict (map ?kv (i # is)) a of
                   Some x \<Rightarrow> (case py_dict (map ?kv js) b of Some y \<Rightarrow> f x y | None \<Rightarrow> M ! a ! b)
                 | None \<Rightarrow> M ! a ! b)"
    proof (cases "py_dict (map ?kv is) a")
      case None
      show ?thesis
        by (simp only: 2 1 V None) (simp split: option.splits)
    next
      case (Some x)
      show ?thesis
        by (simp only: 2 1 V Some) (simp split: option.splits)
    qed
  qed
qed

lemma square_np_empty: "square n (np_empty content n)"
  by (simp add: np_empty_def square_def)

lemma make_sim_matrix_symmetric:
  assumes mk: "make_sim_matrix m feats col f content = Inr M"
    and sym: "\<forall>x y. f x y = f y x"
    and cover: "\<forall>a < length feats. \<exists>r \<in> set feats. \<exists>it2i. item2index m = Some it2i
                   \<and> it2i (f_itemid r) = Some a"
  shows "square (length feats) M \<and> symmetric M"
proof (cases "item2index m")
  case None
  then have "M = []"
    using mk by (auto simp: make_sim_matrix_def Let_def split: if_splits)
  moreover from None mk have "length feats = 0"
    by (auto simp: make_sim_matrix_def Let_def split: if_splits)
  ultimately show ?thesis
    by (simp add: square_def symmetric_def)
next
  case (Some it2i)
  let ?n = "length feats"
  let ?kv = "\<lambda>j. (the (it2i (f_itemid (feats ! j))), f_col (feats ! j) col)"
  let ?V = "py_dict (map ?kv [0..<?n])"
  have loop: "for_each (\<lambda>i. for_each (sim_write it2i feats col f i) [0..<?n]) [0..<?n]
                (np_empty content ?n) = Inr M"
    using mk Some by (simp add: make_sim_matrix_def Let_def)
  note O = outer_loop [OF loop square_np_empty]
  have kvs: "map ?kv [0..<?n] = map (\<lambda>r. (the (it2i (f_itemid r)), f_col r col)) feats"
    by (rule nth_equalityI) simp_all
  have dom: "?V a \<noteq> None" if an: "a < ?n" for a
  proof -
    from cover an obtain r where r: "r \<in> set feats" "it2i (f_itemid r) = Some a"
      using Some by auto
    then have "(a, f_col r col) \<in> set (map (\<lambda>r. (the (it2i (f_itemid r)), f_col r col)) feats)"
      unfolding keys_conv by (intro bexI [of _ r]) simp_all
    then have "a \<in> fst ` set (map ?kv [0..<?n])"
      unfolding kvs by (rule rev_image_eqI) simp
    then have "a \<in> dom ?V"
      by (simp only: dom_py_dict)
    then show ?thesis
      by (simp add: domIff)
  qed
  have cell: "M ! a ! b = f (the (?V a)) (the (?V b))" if ab: "a < ?n" "b < ?n" for a b
  proof -
    obtain x y where "?V a = Some x" "?V b = Some y"
      using dom [OF ab(1)] dom [OF ab(2)] by auto
    then show ?thesis
      using O ab by simp
  qed
  have "length M = ?n"
    using O by (simp add: square_def)
  then have "symmetric M"
    using cell sym by (simp add: symmetric_def)
  then show ?thesis
    using O by blast
qed

lemma feature_sum_symmetric:
  assumes "feature_sum m feats content cws acc = Inr F"
    and "square (length feats) acc" and "symmetric acc"
    and "\<forall>cw' \<in> set cws. \<forall>x y. snd (snd cw') x y = snd (snd cw') y x"
    and cover: "\<forall>a < length feats. \<exists>r \<in> set feats. \<exists>it2i. item2index m = Some it2i
                   \<and> it2i (f_itemid r) = Some a"
  shows "square (length feats) F \<and> symmetric F"
  using assms(1-4)
proof (induction cws arbitrary: acc)
  case Nil
  then show ?case by simp
next
  case (Cons cw' cws)
  from Cons.prems(1) obtain sm where
    mk: "make_sim_matrix m feats (fst cw') (snd (snd cw')) (content (fst cw')) = Inr sm"
    and r: "feature_sum m feats content cws (add_arrays acc (scale (fst (snd cw')) sm)) = Inr F"
    by (auto split: sum.splits)
  have f: "\<forall>x y. snd (snd cw') x y = snd (snd cw') y x"
    using Cons.prems(4) by simp
  have sm: "square (length feats) sm" "symmetric sm"
    using make_sim_matrix_symmetric [OF mk f cover] by simp_all
  have sc: "square (length feats) (scale (fst (snd cw')) sm)" "symmetric (scale (fst (snd cw')) sm)"
    using sm by (simp_all add: square_scale symmetric_scale)
  have "square (length feats) (add_arrays acc (scale (fst (snd cw')) sm))"
    using Cons.prems(2) sc(1) by (rule square_add_arrays)
  moreover have "symmetric (add_arrays acc (scale (fst (snd cw')) sm))"
    using Cons.prems(2) sc(1) Cons.prems(3) sc(2) by (rule symmetric_add_arrays)
  moreover have "\<forall>cw' \<in> set cws. \<forall>x y. snd (snd cw') x y = snd (snd cw') y x"
    using Cons.prems(4) by simp
  ultimately show ?case
    using Cons.IH [OF r] by blast
qed

lemma compute_feature_sim_matrix_symmetric:
  assumes "compute_feature_sim_matrix m cw feats content = Inr F"
    and "\<forall>cw' \<in> set (feature_weights cw). \<forall>x y. snd (snd cw') x y = snd (snd cw') y x"
    and "\<forall>a < length feats. \<exists>r \<in> set feats. \<exists>it2i. item2index m = Some it2i
                   \<and> it2i (f_itemid r) = Some a"
  shows "square (length feats) F \<and> symmetric F"
  using feature_sum_symmetric [OF assms(1) [unfolded compute_feature_sim_matrix_def]
          square_zeros symmetric_zeros assms(2,3)] .

lemma similarity_stage_symmetric:
  assumes st: "similarity_stage m C dt load feats cw content = Inr m'"
    and C: "square n C" "symmetric C"
    and custom: "similarity_type m = CUSTOM \<longrightarrow>
                   \<not> load
                 \<and> (\<forall>cw' \<in> set (feature_weights cw). \<forall>x y. snd (snd cw') x y = snd (snd cw') y x)
                 \<and> (\<forall>a < length feats. \<exists>r \<in> set feats. \<exists>it2i. item2index m = Some it2i
                        \<and> it2i (f_itemid r) = Some a)"
  shows "\<exists>S. item_similarity m' = Some S \<and> symmetric S"
proof (cases "similarity_type m")
  case COOCCUR
  then show ?thesis
    using st C by (auto simp: similarity_stage_def)
next
  case JACCARD
  have "symmetric (map (map (astype dt)) (jaccard C))"
    using C by (intro symmetric_map [of n] square_jaccard symmetric_jaccard)
  then show ?thesis
    using st JACCARD by (auto simp: similarity_stage_def)
next
  case LIFT
  have "symmetric (map (map (astype dt)) (lift C))"
    using C by (intro symmetric_map [of n] square_lift symmetric_lift)
  then show ?thesis
    using st LIFT by (auto simp: similarity_stage_def)
next
  case CUSTOM
  with custom have nl: "\<not> load"
    and fs: "\<forall>cw' \<in> set (feature_weights cw). \<forall>x y. snd (snd cw') x y = snd (snd cw') y x"
    and cover: "\<forall>a < length feats. \<exists>r \<in> set feats. \<exists>it2i. item2index m = Some it2i
                        \<and> it2i (f_itemid r) = Some a"
    by simp_all
  from st CUSTOM nl obtain w F S where
    F: "compute_feature_sim_matrix m cw feats content = Inr F"
    and S: "iadd (scale w (map (map (astype dt)) (jaccard C))) (scale (fsub (Fin 1) w) F) = Inr S"
    and m': "item_similarity m' = Some S"
    by (auto simp: similarity_stage_def feature_stage_def split: option.splits sum.splits)
  have Fs: "square (length feats) F" "symmetric F"
    using compute_feature_sim_matrix_symmetric [OF F fs cover] by simp_all
  have J: "square n (scale w (map (map (astype dt)) (jaccard C)))"
    "symmetric (scale w (map (map (astype dt)) (jaccard C)))"
    using C by (auto intro!: square_scale symmetric_scale [of n] square_map square_jaccard
                  symmetric_map [of n] symmetric_jaccard)
  have "symmetric S"
    using iadd_symmetric(2) [OF S J(1) square_scale [OF Fs(1)] J(2) symmetric_scale [OF Fs]] .
  with m' show ?thesis
    by blast
qed


section \<open>Recommendations from seed items: the masked cells and the rows of the result\<close>

lemma mask_cells_length: "length (mask_cells cells M) = length M"
  unfolding mask_cells_def by (induction cells arbitrary: M) simp_all

lemma mask_cells_row_length:
  "u < length M \<Longrightarrow> length (mask_cells cells M ! u) = length (M ! u)"
  unfolding mask_cells_def
proof (induction cells arbitrary: M)
  case Nil
  show ?case by simp
next
  case (Cons c cells)
  let ?M = "M [fst c := (M ! fst c) [snd c := MInf]]"
  have "length (fold (\<lambda>c M. M [fst c := (M ! fst c) [snd c := MInf]]) cells ?M ! u)
          = length (?M ! u)"
    using Cons.prems by (intro Cons.IH) simp
  also have "\<dots> = length (M ! u)"
    using Cons.prems by (cases "u = fst c") simp_all
  finally show ?case
    by simp
qed

lemma mask_cells_cell:
  assumes "u < length M" and "i < length (M ! u)"
  shows "mask_cells cells M ! u ! i = (if (u, i) \<in> set cells then MInf else M ! u ! i)"
  using assms unfolding mask_cells_def
proof (induction cells arbitrary: M)
  case Nil
  show ?case by simp
next
  case (Cons c cells)
  let ?M = "M [fst c := (M ! fst c) [snd c := MInf]]"
  have len: "u < length ?M" "i < length (?M ! u)"
    using Cons.prems by (cases "u = fst c"; simp)+
  have cell: "?M ! u ! i = (if (u, i) = c then MInf else M ! u ! i)"
  proof (cases "u = fst c")
    case True
    then show ?thesis
      using Cons.prems by (cases c) (auto simp: nth_list_update)
  next
    case False
    then show ?thesis
      by (cases c) auto
  qed
  have "fold (\<lambda>c M. M [fst c := (M ! fst c) [snd c := MInf]]) (c # cells) M ! u ! i
          = (if (u, i) \<in> set cells then MInf else ?M ! u ! i)"
    using Cons.IH [OF len] by simp
  also have "\<dots> = (if (u, i) \<in> set (c # cells) then MInf else M ! u ! i)"
    by (auto simp: cell)
  finally show ?case .
qed

lemma those_map_Some:
  "those (map f xs) = Some ys \<Longrightarrow> ys = map (\<lambda>x. the (f x)) xs \<and> (\<forall>x \<in> set xs. f x \<noteq> None)"
  by (induction xs arbitrary: ys) (auto split: option.splits)

lemma top_k_row_set: "set (top_k_row k s row) \<subseteq> {0..<length row}"
proof -
  have "set (take (min k (length row)) (sort_key (\<lambda>j. (desc_rank (row ! j), j)) [0..<length row]))
          \<subseteq> set (sort_key (\<lambda>j. (desc_rank (row ! j), j)) [0..<length row])"
    by (rule set_take_subset)
  then show ?thesis
    by (simp add: top_k_row_def Let_def)
qed

lemma top_k_row_length: "length (top_k_row k s row) = min k (length row)"
  by (simp add: top_k_row_def Let_def)

lemma zip_blocks:
  assumes "\<forall>ys \<in> set yss. length ys = k"
  shows "zip (concat (map (replicate k) xs)) (concat yss)
           = concat (map2 (\<lambda>x ys. map (Pair x) ys) xs yss)"
  using assms
proof (induction xs arbitrary: yss)
  case Nil
  show ?case by simp
next
  case (Cons x xs)
  show ?case
  proof (cases yss)
    case Nil
    then show ?thesis by simp
  next
    case (Cons ys yss')
    have k: "length ys = k" and rest: "\<forall>ys \<in> set yss'. length ys = k"
      using Cons.prems Cons by simp_all
    have "zip (replicate k x @ concat (map (replicate k) xs)) (ys @ concat yss')
            = zip (replicate k x) ys @ zip (concat (map (replicate k) xs)) (concat yss')"
      using k by (intro zip_append) simp
    moreover have "zip (replicate k x) ys = map (Pair x) ys"
      using k by (intro nth_equalityI) simp_all
    ultimately show ?thesis
      using Cons.IH [OF rest] Cons by simp
  qed
qed

lemma zip_picks:
  "zip (concat (map (map f) tops)) (concat (map2 (\<lambda>row js. map (\<lambda>j. row ! j) js) scores tops))
     = concat (map2 (\<lambda>row js. map (\<lambda>j. (f j, row ! j)) js) scores tops)"
proof (induction tops arbitrary: scores)
  case Nil
  show ?case by simp
next
  case (Cons js tops)
  show ?case
  proof (cases scores)
    case Nil
    then show ?thesis by simp
  next
    case (Cons row scores')
    have "zip (map f js @ concat (map (map f) tops))
            (map (\<lambda>j. row ! j) js
               @ concat (map2 (\<lambda>row js. map (\<lambda>j. row ! j) js) scores' tops))
          = zip (map f js) (map (\<lambda>j. row ! j) js)
              @ zip (concat (map (map f) tops))
                  (concat (map2 (\<lambda>row js. map (\<lambda>j. row ! j) js) scores' tops))"
      by (intro zip_append) simp
    moreover have "zip (map f js) (map (\<lambda>j. row ! j) js) = map (\<lambda>j. (f j, row ! j)) js"
      by (simp add: zip_map_map zip_same_conv_map)
    ultimately show ?thesis
      using Cons.IH [of scores'] Cons by simp
  qed
qed

lemma cell_lt_Val: "cell_lt c n \<Longrightarrow> \<exists>k. c = Val k \<and> k < n"
  by (cases c) (simp_all add: cell_lt_def)

lemma map_cell_Val: "map_cell d x = Val k \<Longrightarrow> d x = Some k"
  by (simp add: map_cell_def split: option.splits)

lemma length_seed_user_ids: "length (seed_user_ids items) = length (seed_rows items)"
  by (simp add: seed_user_ids_def seed_users_def)

lemma seed_scores_cells:
  assumes sc: "seed_scores m items = Inr scores"
    and it: "item2index m = Some it2i" and ni: "n_items m = Some ni"
  shows "length scores = length (unique (seed_user_ids items))"
    and "\<forall>g < length scores. length (scores ! g) = ni"
    and "\<forall>n < length (seed_rows items). \<exists>g k.
           seed_user_ids items ! n = Val g \<and> it2i (s_item (seed_rows items ! n)) = Some k
           \<and> g < length scores \<and> k < ni \<and> scores ! g ! k = MInf"
proof -
  let ?rows = "seed_rows items"
  let ?uids = "seed_user_ids items"
  let ?iids = "map (\<lambda>r. map_cell it2i (s_item r)) ?rows"
  let ?ratings = "map (\<lambda>r. if has_rating items then s_rating r else Fin 1) ?rows"
  let ?nu = "length (unique ?uids)"
  let ?cells = "zip (map cell_val ?uids) (map cell_val ?iids)"
  obtain S A where S: "item_similarity m = Some S"
    and A: "coo_tocsr fadd ?nu ni (zip ?ratings (zip ?uids ?iids)) = Inr A"
    and scores: "scores = mask_cells ?cells (csr_dot A [0..<?nu] S ni)"
    using sc it ni
    by (auto simp: seed_scores_def Let_def split: option.splits sum.splits if_splits)
  let ?M = "csr_dot A [0..<?nu] S ni"
  have lenM: "length ?M = ?nu"
    by (simp add: csr_dot_def)
  have rowM: "length (?M ! g) = ni" if "g < ?nu" for g
    using that by (simp add: csr_dot_def)
  show len: "length scores = ?nu"
    by (simp add: scores mask_cells_length lenM)
  show "\<forall>g < length scores. length (scores ! g) = ni"
    using len by (simp add: scores mask_cells_row_length lenM rowM)
  have ok: "\<forall>e \<in> set (zip ?ratings (zip ?uids ?iids)).
              cell_lt (fst (snd e)) ?nu \<and> cell_lt (snd (snd e)) ni"
    using A by (simp add: coo_tocsr_def split: if_splits)
  show "\<forall>n < length ?rows. \<exists>g k.
           ?uids ! n = Val g \<and> it2i (s_item (?rows ! n)) = Some k
           \<and> g < length scores \<and> k < ni \<and> scores ! g ! k = MInf"
  proof (intro allI impI)
    fix n
    assume n: "n < length ?rows"
    have lu: "length ?uids = length ?rows"
      by (rule length_seed_user_ids)
    have "zip ?ratings (zip ?uids ?iids) ! n = (?ratings ! n, ?uids ! n, ?iids ! n)"
      using n lu by simp
    moreover have "n < length (zip ?ratings (zip ?uids ?iids))"
      using n lu by simp
    ultimately have "(?ratings ! n, ?uids ! n, ?iids ! n) \<in> set (zip ?ratings (zip ?uids ?iids))"
      by (metis nth_mem)
    with ok have "cell_lt (?uids ! n) ?nu" "cell_lt (?iids ! n) ni"
      by force+
    then obtain g k where g: "?uids ! n = Val g" "g < ?nu" and k: "?iids ! n = Val k" "k < ni"
      by (meson cell_lt_Val)
    have itk: "it2i (s_item (?rows ! n)) = Some k"
      using k(1) n by (intro map_cell_Val) simp
    have "?cells ! n = (g, k)"
      using n lu g(1) k(1) by (simp add: cell_val_def)
    moreover have "n < length ?cells"
      using n lu by simp
    ultimately have "(g, k) \<in> set ?cells"
      by (metis nth_mem)
    then have "scores ! g ! k = MInf"
      using g(2) k(2) by (simp add: scores mask_cells_cell lenM rowM)
    with g k itk len show "\<exists>g k.
           ?uids ! n = Val g \<and> it2i (s_item (?rows ! n)) = Some k
           \<and> g < length scores \<and> k < ni \<and> scores ! g ! k = MInf"
      by simp
  qed
qed

text \<open>The index of a seed row in the local dictionary of the grouping users.\<close>

lemma seed_group:
  assumes n: "n < length (seed_rows items)"
    and g: "g < length (unique (seed_users items))"
    and key: "unique (seed_users items) ! g = seed_users items ! n"
    and val: "seed_user_ids items ! n = Val g'"
  shows "g' = g"
proof (cases "has_user items")
  case True
  have "py_dict (inverted (enumerate 0 (unique (seed_users items)))) (seed_users items ! n) = Some g"
    using g key by (simp add: index_dict_Some)
  moreover have "seed_user_ids items ! n
      = map_cell (py_dict (inverted (enumerate 0 (unique (seed_users items))))) (seed_users items ! n)"
    using True n by (simp add: seed_user_ids_def seed_users_def)
  ultimately show ?thesis
    using val by (simp add: map_cell_def)
next
  case False
  then have g': "g' = 0"
    using val n by (simp add: seed_user_ids_def)
  have "set (unique (seed_users items)) \<subseteq> {None}"
    using False by (auto simp: seed_users_def)
  then have "card (set (unique (seed_users items))) \<le> 1"
    by (metis card_mono finite.emptyI finite.insertI card_1_singleton_iff le_refl
          is_singletonI is_singleton_altdef)
  moreover have "card (set (unique (seed_users items))) = length (unique (seed_users items))"
    by (rule distinct_card) (rule distinct_unique)
  ultimately have "length (unique (seed_users items)) \<le> 1"
    by (simp only:)
  with g g' show ?thesis
    by simp
qed

text \<open>Every row of the result comes from a cell of the masked scores: the row of a
  grouping user and a column that the selection took.\<close>

lemma in_concat_blocks:
  assumes "(x, y) \<in> set (concat (map2 (\<lambda>x ys. map (Pair x) ys) xs yss))"
  shows "\<exists>ys. (x, ys) \<in> set (zip xs yss) \<and> y \<in> set ys"
proof -
  from assms obtain zs where zs: "zs \<in> set (map2 (\<lambda>x ys. map (Pair x) ys) xs yss)"
    and m: "(x, y) \<in> set zs"
    unfolding set_concat by (rule UN_E)
  from zs obtain p where p: "p \<in> set (zip xs yss)" and e: "zs = map (Pair (fst p)) (snd p)"
    by (auto simp: case_prod_beta)
  from m e have "x = fst p" "y \<in> set (snd p)"
    by auto
  with p have "(x, snd p) \<in> set (zip xs yss) \<and> y \<in> set (snd p)"
    by simp
  then show ?thesis ..
qed

lemma result_row_origin:
  assumes call: "get_item_based_topk m items top_k sort_top_k = Inr recs"
    and sc: "seed_scores m items = Inr scores"
    and ix: "index2item m = Some i2it"
    and r: "r \<in> set recs"
  shows "\<exists>g j. g < length (unique (seed_users items)) \<and> g < length scores
           \<and> j < length (scores ! g)
           \<and> r_user r = unique (seed_users items) ! g
           \<and> i2it j = Some (r_item r)
           \<and> r_prediction r = scores ! g ! j"
proof -
  obtain it2i where it: "item2index m = Some it2i"
    using sc by (auto simp: seed_scores_def split: option.splits)
  obtain ni where ni: "n_items m = Some ni"
    using sc by (auto simp: seed_scores_def split: option.splits)
  let ?groups = "unique (seed_users items)"
  let ?k = "min top_k ni"
  let ?tops = "map (top_k_row top_k sort_top_k) scores"
  let ?name = "\<lambda>j. the (i2it j)"
  let ?yss = "map (\<lambda>row. map (\<lambda>j. (?name j, row ! j)) (top_k_row top_k sort_top_k row)) scores"
  let ?mk = "\<lambda>x. \<lparr> r_user = fst x, r_item = fst (snd x), r_prediction = snd (snd x) \<rparr>
               :: ('a, 'b) recommendation"
  have top: "get_top_k_scored_items scores top_k sort_top_k
               = (?tops, map2 (\<lambda>row js. map (\<lambda>j. row ! j) js) scores ?tops)"
    by (simp add: get_top_k_scored_items_def Let_def)
  obtain names where th: "those (map i2it (concat ?tops)) = Some names"
    and recs: "recs = drop_invalid
                 (result_rows (concat (map (replicate ?k) ?groups)) names
                    (concat (map2 (\<lambda>row js. map (\<lambda>j. row ! j) js) scores ?tops)))"
    using call sc ix ni
    by (auto simp: get_item_based_topk_def top Let_def split: option.splits)
  have names: "names = map ?name (concat ?tops)"
    and some: "\<forall>j \<in> set (concat ?tops). i2it j \<noteq> None"
    using those_map_Some [OF th] by simp_all
  have rowlen: "\<forall>g < length scores. length (scores ! g) = ni"
    using seed_scores_cells(2) [OF sc it ni] .
  have "names = concat (map (map ?name) ?tops)"
    by (simp only: names map_concat)
  then have "zip names (concat (map2 (\<lambda>row js. map (\<lambda>j. row ! j) js) scores ?tops))
               = concat (map2 (\<lambda>row js. map (\<lambda>j. (?name j, row ! j)) js) scores ?tops)"
    by (simp only: zip_picks)
  also have "map2 (\<lambda>row js. map (\<lambda>j. (?name j, row ! j)) js) scores ?tops = ?yss"
    by (simp add: zip_map2 zip_same_conv_map)
  finally have z1: "zip names (concat (map2 (\<lambda>row js. map (\<lambda>j. row ! j) js) scores ?tops))
                      = concat ?yss" .
  have blocks: "\<forall>ys \<in> set ?yss. length ys = ?k"
  proof
    fix ys
    assume "ys \<in> set ?yss"
    then obtain row where row: "row \<in> set scores"
      and ys: "ys = map (\<lambda>j. (?name j, row ! j)) (top_k_row top_k sort_top_k row)"
      by auto
    from row obtain g where "g < length scores" "row = scores ! g"
      by (metis in_set_conv_nth)
    then have "length row = ni"
      using rowlen by simp
    then show "length ys = ?k"
      by (simp add: ys top_k_row_length)
  qed
  have z2: "zip (concat (map (replicate ?k) ?groups)) (concat ?yss)
              = concat (map2 (\<lambda>x ys. map (Pair x) ys) ?groups ?yss)"
    using blocks by (rule zip_blocks)
  have "r \<in> set (result_rows (concat (map (replicate ?k) ?groups)) names
                    (concat (map2 (\<lambda>row js. map (\<lambda>j. row ! j) js) scores ?tops)))"
    using r by (simp add: recs drop_invalid_def)
  then have "r \<in> ?mk ` set (concat (map2 (\<lambda>x ys. map (Pair x) ys) ?groups ?yss))"
    by (simp only: result_rows_def z1 z2 set_map)
  then obtain p where p: "p \<in> set (concat (map2 (\<lambda>x ys. map (Pair x) ys) ?groups ?yss))"
    and rp: "r = ?mk p"
    by (rule imageE)
  obtain x y where pxy: "p = (x, y)"
    by (cases p)
  have xy: "(x, y) \<in> set (concat (map2 (\<lambda>x ys. map (Pair x) ys) ?groups ?yss))"
    using p by (simp only: pxy)
  have rr: "r = ?mk (x, y)"
    using rp by (simp only: pxy)
  from in_concat_blocks [OF xy]
  obtain ys where zs: "(x, ys) \<in> set (zip ?groups ?yss)" and y: "y \<in> set ys"
    by (elim exE conjE)
  from zs obtain g where g: "g < length ?groups" "g < length ?yss"
    and xg: "x = ?groups ! g" and ysg: "ys = ?yss ! g"
    by (auto simp: set_zip)
  have gs: "g < length scores"
    using g(2) by simp
  then have ys': "ys = map (\<lambda>j. (?name j, scores ! g ! j)) (top_k_row top_k sort_top_k (scores ! g))"
    by (simp add: ysg)
  with y obtain j where j: "j \<in> set (top_k_row top_k sort_top_k (scores ! g))"
    and yj: "y = (?name j, scores ! g ! j)"
    by auto
  have jlen: "j < length (scores ! g)"
    using j top_k_row_set [of top_k sort_top_k "scores ! g"] by auto
  have "top_k_row top_k sort_top_k (scores ! g) \<in> set ?tops"
    using gs by simp
  with j have "j \<in> set (concat ?tops)"
    by (simp only: set_concat) (rule UN_I)
  with some have "i2it j \<noteq> None" ..
  then obtain v where v: "i2it j = Some v"
    by (cases "i2it j") simp_all
  show ?thesis
  proof (intro exI conjI)
    show "g < length ?groups" by (rule g(1))
    show "g < length scores" by (rule gs)
    show "j < length (scores ! g)" by (rule jlen)
    show "r_user r = ?groups ! g" by (simp add: rr xg)
    show "i2it j = Some (r_item r)" by (simp add: rr yj v)
    show "r_prediction r = scores ! g ! j" by (simp add: rr yj)
  qed
qed


section \<open>Evaluation of the model on concrete tables\<close>

lemma len_empty: "len Map.empty = 0"
  by (simp add: len_def)

lemma len_upd:
  "finite (dom d) \<Longrightarrow> len (d(k \<mapsto> v)) = (if d k = None then Suc (len d) else len d)"
  by (auto simp: len_def insert_absorb domIff)

lemmas fit_eval =
  fit_def prepare_rows_def prepare_index_def will_load_def sar_init_def set_index_def deduplicate_def
  select_columns_def add_index_columns_def unity_stage_def compute_affinity_matrix_def
  compute_coocurrence_matrix_def user_item_hits_def coo_tocsr_def similarity_stage_def
  len_empty len_upd py_dict_map_of Let_def is_number_def unique_def row_key_def map_cell_def
  inverted_def cell_lt_def cell_val_def coord_def coo_add_def col_value_def jaccard_def lift_def
  ratio_def fsub_def astype_def of_count_def threshold_mask_def item_cooccurrence_def
  entry_def diagonal_def enumerate_eq_zip fresh_def empty_disk_def no_features_def
  no_weights_def

lemma abc_model_fit:
  "fit (fresh JACCARD False False) abc_ratings Float64 no_features no_weights False
     empty_disk zero_content = Inr abc_model"
proof -
  have "\<not> isl (fit (fresh JACCARD False False) abc_ratings Float64 no_features no_weights False
                 empty_disk zero_content)"
    by (simp add: fit_eval abc_ratings_def)
  then show ?thesis
    by (simp add: abc_model_def)
qed

lemma abc_model_index:
  "user2index abc_model = Some (py_dict [(1, 0), (2, 1), (3, 2)])"
  "item2index abc_model = Some (py_dict [(10, 0), (11, 1), (12, 2)])"
  "n_users abc_model = Some 3"
  "n_items abc_model = Some 3"
  by (simp_all add: abc_model_def fit_eval abc_ratings_def numeral_2_eq_2)

lemma abc_model_similarity:
  "item_similarity abc_model =
     Some [[Fin 1, Fin (1 / 3), Fin (1 / 2)],
           [Fin (1 / 3), Fin 1, Fin 0],
           [Fin (1 / 2), Fin 0, Fin 1]]"
  by (simp add: abc_model_def fit_eval abc_ratings_def)

section \<open>Restoring from disk: the counts\<close>

text \<open>
  C10. After \<^verbatim>\<open>load_file\<close> has returned, \<^verbatim>\<open>n_users\<close> is the number of distinct user
  identifiers of the ratings table and \<^verbatim>\<open>n_items\<close> is the size of the restored
  index-to-item dictionary: the intermediate assignment of the user count to
  \<^verbatim>\<open>n_items\<close> is overwritten.
\<close>

theorem load_file_counts:
  assumes "load_file m d p k df_ratings = Inr m'"
  shows "n_users m' = Some (card (user ` set df_ratings))
       \<and> (\<exists>i2i. index2item_obj d p k = Some i2i \<and> index2item m' = Some i2i
                \<and> n_items m' = Some (len i2i))"
  using assms
  by (auto simp: load_file_def Let_def len_user_dict split: option.splits)

text \<open>Three users and a saved index of two items: the counts are 3 and 2.\<close>

theorem load_file_counts_witness:
  "\<not> isl (load_file (fresh CUSTOM False False) saved_disk Experiment 2 abc_ratings)
   \<and> n_users (projr (load_file (fresh CUSTOM False False) saved_disk Experiment 2 abc_ratings))
       = Some 3
   \<and> n_items (projr (load_file (fresh CUSTOM False False) saved_disk Experiment 2 abc_ratings))
       = Some 2"
proof -
  let ?r = "load_file (fresh CUSTOM False False) saved_disk Experiment 2 abc_ratings"
  have nl: "\<not> isl ?r"
    by (simp add: load_file_def saved_disk_def Let_def)
  then have ok: "?r = Inr (projr ?r)"
    by simp
  have users: "card (user ` set abc_ratings) = 3"
    by (simp add: abc_ratings_def)
  have items: "index2item_obj saved_disk Experiment 2 = Some i2i \<Longrightarrow> len i2i = 2" for i2i
    by (auto simp: saved_disk_def py_dict_map_of len_upd len_empty)
  from load_file_counts [OF ok] users items nl show ?thesis
    by auto
qed

section \<open>Scoring: unknown users\<close>

text \<open>
  C6. If a user identifier of the scoring request is absent from the identity index,
  \<^verbatim>\<open>score\<close> fails with \<open>UnknownEntity\<close> for the whole call: the result is the error and no
  matrix, whatever the other users of the request and the two flags are.
\<close>

theorem score_unknown_user:
  assumes "user2index m = Some u2i"
    and "(u, i) \<in> set test"
    and "u2i u = None"
  shows "score m test remove_seen normalize' = Inl UnknownEntity"
proof -
  have "u \<in> set (unique (map fst test))"
    using assms(2) by force
  then have "None \<in> set (map u2i (unique (map fst test)))"
    using assms(3) by (metis image_eqI set_map)
  then show ?thesis
    using assms(1) by (simp add: score_def)
qed

text \<open>The users A and B are known, the user \<open>7\<close> is not: the request for A and \<open>7\<close> fails
  as a whole.\<close>

theorem score_unknown_user_witness:
  "user2index abc_model = Some (py_dict [(1, 0), (2, 1), (3, 2)])
   \<and> ((7 :: nat), (10 :: nat)) \<in> set [(1, 10), (7, 10)]
   \<and> py_dict [(1, 0), (2, 1), (3, 2)] (7 :: nat) = (None :: nat option)
   \<and> score abc_model [(1, 10), (7, 10)] True False = Inl UnknownEntity"
proof -
  have a: "user2index abc_model = Some (py_dict [(1, 0), (2, 1), (3, 2)])"
    by (rule abc_model_index)
  have b: "((7 :: nat), (10 :: nat)) \<in> set [(1, 10), (7, 10)]"
    by simp
  have c: "py_dict [(1, 0), (2, 1), (3, 2)] (7 :: nat) = (None :: nat option)"
    by (simp add: py_dict_map_of)
  from score_unknown_user [OF a b c] a b c show ?thesis
    by blast
qed

section \<open>Scoring: seen items\<close>

lemmas score_eval =
  score_def csr_dot_def csr_row_dot_def add_seen_def square_def divide_scores_def
  nan_to_neg_inf_def isnan_def inf_of_sign_def

lemma score_remove_seen:
  assumes "score m test False False = Inr raw"
    and "user_affinity m = Some A" and "user2index m = Some u2i"
  shows "score m test True False
           = Inr (add_seen A (map (\<lambda>u. the (u2i u)) (unique (map fst test))) raw)"
  using assms
  by (auto simp: score_def Let_def comp_def split: option.splits if_splits)

lemma score_shape:
  assumes "score m test False False = Inr raw" and "n_items m = Some ni"
  shows "length raw = length (unique (map fst test))"
    and "\<forall>row \<in> set raw. length row = ni"
  using assms
  by (auto simp: score_def Let_def csr_dot_def split: option.splits if_splits)

lemma add_seen_cell:
  assumes "r < length ids" and "r < length raw" and "j < length (raw ! r)"
  shows "add_seen A ids raw ! r ! j
           = (case A (ids ! r, j) of None \<Rightarrow> raw ! r ! j
              | Some a \<Rightarrow> fadd (raw ! r ! j) (fmul a MInf))"
  using assms by (simp add: add_seen_def)

text \<open>What the multiplication by minus infinity does to a finite raw score: a positive
  affinity sends the cell to minus infinity, a negative affinity to plus infinity.\<close>

lemma seen_positive: "0 < a \<Longrightarrow> fadd (Fin x) (fmul (Fin a) MInf) = MInf"
  by (simp add: inf_of_sign_def)

lemma seen_negative: "a < 0 \<Longrightarrow> fadd (Fin x) (fmul (Fin a) MInf) = PInf"
  by (simp add: inf_of_sign_def)

lemma score_seen_positive:
  assumes "score m test False False = Inr raw"
    and "user_affinity m = Some A" and "user2index m = Some u2i"
    and "r < length raw" and "j < length (raw ! r)"
    and "A (the (u2i (unique (map fst test) ! r)), j) = Some (Fin a)" and "0 < a"
    and "raw ! r ! j = Fin x"
  shows "\<exists>M. score m test True False = Inr M \<and> M ! r ! j = MInf"
proof -
  let ?ids = "map (\<lambda>u. the (u2i u)) (unique (map fst test))"
  have len: "length raw = length (unique (map fst test))"
    using assms(1) by (auto simp: score_def Let_def csr_dot_def split: option.splits if_splits)
  then have r: "r < length ?ids"
    using assms(4) by simp
  have "add_seen A ?ids raw ! r ! j = fadd (Fin x) (fmul (Fin a) MInf)"
    using add_seen_cell [OF r assms(4) assms(5), of A] assms(6) assms(8) r len by simp
  then show ?thesis
    using score_remove_seen [OF assms(1-3)] seen_positive [OF assms(7)] by simp
qed

text \<open>
  C1. For a user with a non-zero training affinity on an item, \<^verbatim>\<open>score\<close> with
  \<^verbatim>\<open>remove_seen=True\<close> is claimed to give minus infinity in that cell. The model trained on
  the table in which A rates x with \<open>-1\<close> has the affinity \<open>-1\<close> at (A, x); the score of
  A is plus infinity for x (and minus infinity for y, whose affinity is positive).
\<close>

theorem seen_item_negative_affinity:
  "fit (fresh JACCARD False False) dislike_ratings Float64 no_features no_weights False
     empty_disk zero_content = Inr dislike_model
   \<and> map_option (\<lambda>A. A (0, 0)) (user_affinity dislike_model) = Some (Some (Fin (- 1)))
   \<and> score dislike_model [(1, 10)] True False = Inr [[PInf, MInf, Fin (- 1 / 2)]]"
proof -
  have "\<not> isl (fit (fresh JACCARD False False) dislike_ratings Float64 no_features no_weights
                 False empty_disk zero_content)"
    by (simp add: fit_eval dislike_ratings_def)
  then have "fit (fresh JACCARD False False) dislike_ratings Float64 no_features no_weights False
               empty_disk zero_content = Inr dislike_model"
    by (simp add: dislike_model_def)
  moreover have "map_option (\<lambda>A. A (0, 0)) (user_affinity dislike_model)
                   = Some (Some (Fin (- 1)))"
    by (simp add: dislike_model_def fit_eval dislike_ratings_def)
  moreover have "score dislike_model [(1, 10)] True False = Inr [[PInf, MInf, Fin (- 1 / 2)]]"
    by (simp add: dislike_model_def fit_eval score_eval dislike_ratings_def)
  ultimately show ?thesis
    by blast
qed

section \<open>Scoring: normalization\<close>











section \<open>Training: the unity affinity under time decay\<close>

lemmas decay_eval =
  compute_time_decay_def groupby_sum_def sum_group_def nansum_def sum_index_def sum_unity_def
  series_max_def scale_column_def exponential_decay_def isnan_def

text \<open>
  C5. The unity affinity matrix is claimed to come from the same pipeline as the
  rating-weighted affinity (same decay, same aggregation, same raw rows) with every raw
  weight \<open>1.0\<close>. In the table \<open>twice_ratings\<close> every rating is \<open>1.0\<close>, so the two matrices
  should agree. The affinity of (A, x) is \<open>1/2 + 1 = 3/2\<close>, the sum of the decayed weights
  of the two rows. The unity affinity of (A, x) is \<open>1\<close>: the unity column is set after the
  aggregation, on the one row that is left of the pair, and decayed with the timestamp of
  that row, which is the sum of the two timestamps.
\<close>

theorem unity_affinity_after_decay:
  "fit (fresh JACCARD True True) twice_ratings Float64 no_features no_weights False
     empty_disk zero_content = Inr twice_model
   \<and> map_option (\<lambda>A. A (0, 0)) (user_affinity twice_model) = Some (Some (Fin (3 / 2)))
   \<and> map_option (\<lambda>A. A (0, 0)) (unity_user_affinity twice_model) = Some (Some (Fin 1))"
proof -
  have "\<not> isl (fit (fresh JACCARD True True) twice_ratings Float64 no_features no_weights False
                 empty_disk zero_content)"
    by (simp add: fit_eval decay_eval twice_ratings_def)
  then have "fit (fresh JACCARD True True) twice_ratings Float64 no_features no_weights False
               empty_disk zero_content = Inr twice_model"
    by (simp add: twice_model_def)
  moreover have "map_option (\<lambda>A. A (0, 0)) (user_affinity twice_model)
                   = Some (Some (Fin (3 / 2)))"
    by (simp add: twice_model_def fit_eval decay_eval twice_ratings_def)
  moreover have "map_option (\<lambda>A. A (0, 0)) (unity_user_affinity twice_model)
                   = Some (Some (Fin 1))"
    by (simp add: twice_model_def fit_eval decay_eval twice_ratings_def)
  ultimately show ?thesis
    by blast
qed

section \<open>Predictions: unseen items\<close>

lemmas predict_eval = predict_def append_zero_column_def lookup2_def

text \<open>With an unseen item in the request, \<^verbatim>\<open>predict\<close> appends a column of \<^verbatim>\<open>n_users\<close>
  zeros to the score matrix, which has one row per distinct user of the request: the call
  fails unless the request names as many distinct users as the training table.\<close>

lemma predict_unseen_needs_all_users:
  assumes "score m test False False = Inr S"
    and "item2index m = Some it2i" and "n_users m = Some nu"
    and "(u, i) \<in> set test" and "it2i i = None"
    and "length (unique (map fst test)) \<noteq> nu"
  shows "predict m test = Inl MatrixError"
proof -
  have "it2i (snd (u, i)) = None" "(u, i) \<in> set test"
    using assms(4,5) by simp_all
  then have nans: "None \<in> (\<lambda>t. it2i (snd t)) ` set test"
    by (metis image_eqI)
  have len: "length S = length (unique (map fst test))"
    using assms(1) by (auto simp: score_def Let_def csr_dot_def split: option.splits if_splits)
  obtain u2i ni where fields: "user2index m = Some u2i" "n_items m = Some ni"
    using assms(1) by (auto simp: score_def Let_def split: option.splits if_splits)
  show ?thesis
    using assms(1,2,3,6) fields len nans
    by (simp add: predict_def Let_def append_zero_column_def)
qed

lemma predict_unseen_item_all_users:
  "predict abc_model [(1, 99), (2, 10), (3, 10)]
     = Inr (True, [(1, 99, Fin 0), (2, 10, Fin 5), (3, 10, Fin (1 / 3))])"
  by (simp add: abc_model_def fit_eval score_eval abc_ratings_def predict_eval)

text \<open>
  C7. A prediction request with an unseen item is claimed not to fail. In the model of the
  scenario the user A is known and the item \<open>99\<close> is not; scoring the request works, and
  \<^verbatim>\<open>predict\<close> fails on it.
\<close>

theorem predict_unseen_item_fails:
  "map_option (\<lambda>d. d 1) (user2index abc_model) = Some (Some 0)
   \<and> map_option (\<lambda>d. d 99) (item2index abc_model) = Some None
   \<and> score abc_model [(1, 99)] False False = Inr [[Fin 6, Fin (14 / 3), Fin (5 / 2)]]
   \<and> predict abc_model [(1, 99)] = Inl MatrixError"
proof -
  have "map_option (\<lambda>d. d 1) (user2index abc_model) = Some (Some 0)"
    by (simp add: abc_model_def fit_eval abc_ratings_def)
  moreover have "map_option (\<lambda>d. d 99) (item2index abc_model) = Some None"
    by (simp add: abc_model_def fit_eval abc_ratings_def)
  moreover have "score abc_model [(1, 99)] False False = Inr [[Fin 6, Fin (14 / 3), Fin (5 / 2)]]"
    by (simp add: abc_model_def fit_eval score_eval abc_ratings_def)
  moreover have "predict abc_model [(1, 99)] = Inl MatrixError"
    by (simp add: abc_model_def fit_eval score_eval abc_ratings_def predict_eval)
  ultimately show ?thesis
    by blast
qed

section \<open>Co-occurrence: item frequencies and the threshold\<close>

text \<open>
  C2. In a fit that builds its own index (a fresh object, nothing restored from disk), for
  every threshold: the diagonal entry of the co-occurrence counts before masking, at the
  index of an item, is the number of distinct users who interacted with the item; every
  item of the table has an index; and each cell of the matrix that
  \<^verbatim>\<open>compute_coocurrence_matrix\<close> returns is zero when its count is below the threshold and
  the count itself otherwise. \<open>mt\<close> is the object and the rows of \<^verbatim>\<open>temp_df\<close> at the
  call of \<^verbatim>\<open>compute_coocurrence_matrix\<close>.
\<close>

theorem cooccurrence_counts:
  assumes p: "prepare_rows m df dt n demo d = Inr mt"
    and fresh: "index2item m = None" and noload: "\<not> will_load d n demo"
  shows "\<exists>hits C nu ni i2it.
           n_users (fst mt) = Some nu \<and> n_items (fst mt) = Some ni
         \<and> index2item (fst mt) = Some i2it
         \<and> user_item_hits (fst mt) (snd mt) = Inr hits
         \<and> (\<forall>x \<in> set df. \<exists>k. i2it k = Some (item x))
         \<and> (\<forall>k i. i2it k = Some i \<longrightarrow>
                k < ni \<and> item_cooccurrence hits nu k k
                          = int (card (user ` {y \<in> set df. item y = i})))
         \<and> compute_coocurrence_matrix (fst mt) (snd mt) dt = Inr C
         \<and> length C = ni
         \<and> (\<forall>i < ni. \<forall>j < ni.
               C ! i ! j = of_count (if item_cooccurrence hits nu i j < threshold m then 0
                                     else item_cooccurrence hits nu i j))"
proof -
  let ?us = "unique (map user df)"
  let ?its = "unique (map item df)"
  let ?i2it = "py_dict (enumerate 0 ?its)"
  note F = prepare_rows_fresh [OF p fresh noload]
  obtain hits where uh: "user_item_hits (fst mt) (snd mt) = Inr hits"
    and e: "\<And>u k. u < length ?us \<Longrightarrow> k < length ?its \<Longrightarrow>
              entry hits (u, k)
                = (if (?us ! u, ?its ! k) \<in> set (map pair_of df) then 1 else 0)"
    using fresh_hits [OF p fresh noload] by blast
  have every: "\<forall>x \<in> set df. \<exists>k. ?i2it k = Some (item x)"
  proof
    fix x assume "x \<in> set df"
    then have "item x \<in> set ?its"
      by simp
    then obtain k where "k < length ?its" "?its ! k = item x"
      unfolding in_set_conv_nth by blast
    then have "?i2it k = Some (item x)"
      by (simp add: item_dict)
    then show "\<exists>k. ?i2it k = Some (item x)" ..
  qed
  have diag: "k < length ?its \<and> item_cooccurrence hits (length ?us) k k
                = int (card (user ` {y \<in> set df. item y = i}))"
    if "?i2it k = Some i" for k i
  proof -
    from that have k: "k < length ?its" and i: "?its ! k = i"
      by (auto simp: item_dict split: if_splits)
    let ?P = "\<lambda>u. (?us ! u, i) \<in> set (map pair_of df)"
    have "item_cooccurrence hits (length ?us) k k
            = (\<Sum>u \<leftarrow> [0..<length ?us]. (if ?P u then 1 else 0) * (if ?P u then 1 else 0))"
      unfolding item_cooccurrence_def
      by (rule arg_cong [of _ _ sum_list], rule map_cong) (simp_all add: e k i)
    also have "\<dots> = int (length (filter ?P [0..<length ?us]))"
      by (rule sum_indicator)
    also have "\<dots> = int (card {u. u < length ?us \<and> ?P u})"
      by (simp only: length_filter_upt)
    also have "\<dots> = int (card (user ` {y \<in> set df. item y = i}))"
      using users_of_item [of ?us df i] by simp
    finally show ?thesis
      using k by simp
  qed
  obtain C where "compute_coocurrence_matrix (fst mt) (snd mt) dt = Inr C" "length C = length ?its"
    "\<forall>i < length ?its. \<forall>j < length ?its.
       C ! i ! j = of_count (if item_cooccurrence hits (length ?us) i j < threshold (fst mt) then 0
                             else item_cooccurrence hits (length ?us) i j)"
    using cooccurrence_cells [OF uh F(4) F(5) prepare_rows_number [OF p]] by blast
  with uh every diag F(3,4,5,6) show ?thesis
    by (intro exI [of _ hits] exI [of _ C] exI [of _ "length ?us"] exI [of _ "length ?its"]
          exI [of _ ?i2it]) simp
qed


lemma users_filter:
  "user ` {y \<in> set df. item y = i} = set (map user (filter (\<lambda>y. item y = i) df))"
  by auto

text \<open>The scenario: x has two users, z has one; with threshold 1 only the pair (y, z),
  which no user shares, is zero.\<close>

theorem cooccurrence_counts_witness:
  "prepare_rows (fresh JACCARD False False) abc_ratings Float64 0 False empty_disk = Inr abc_rows
   \<and> index2item (fresh JACCARD False False :: (nat, nat) sar) = None
   \<and> \<not> will_load empty_disk 0 False
   \<and> (\<exists>hits. user_item_hits (fst abc_rows) (snd abc_rows) = Inr hits
          \<and> item_cooccurrence hits 3 0 0 = 2
          \<and> item_cooccurrence hits 3 2 2 = 1)
   \<and> compute_coocurrence_matrix (fst abc_rows) (snd abc_rows) Float64
        = Inr [[Fin 2, Fin 1, Fin 1], [Fin 1, Fin 2, Fin 0], [Fin 1, Fin 0, Fin 1]]"
proof -
  have "\<not> isl (prepare_rows (fresh JACCARD False False) abc_ratings Float64 0 False empty_disk)"
    by (simp add: fit_eval abc_ratings_def)
  then have p: "prepare_rows (fresh JACCARD False False) abc_ratings Float64 0 False empty_disk
                  = Inr abc_rows"
    by (simp add: abc_rows_def)
  have f: "index2item (fresh JACCARD False False :: (nat, nat) sar) = None"
    by (simp add: fit_eval)
  have nl: "\<not> will_load empty_disk 0 False"
    by (simp add: fit_eval)
  have nu: "n_users (fst abc_rows) = Some 3"
    by (simp add: abc_rows_def fit_eval abc_ratings_def)
  have x: "py_dict (enumerate 0 (unique (map item abc_ratings))) 0 = Some 10"
    and z: "py_dict (enumerate 0 (unique (map item abc_ratings))) 2 = Some 12"
    by (simp_all add: py_dict_map_of unique_def abc_ratings_def)
  have i2: "index2item (fst abc_rows) = Some (py_dict (enumerate 0 (unique (map item abc_ratings))))"
    by (rule prepare_rows_fresh(3) [OF p f nl])
  have cx: "card (user ` {y \<in> set abc_ratings. item y = 10}) = 2"
    and cz: "card (user ` {y \<in> set abc_ratings. item y = 12}) = 1"
    unfolding users_filter by (simp_all add: abc_ratings_def)
  obtain hits C nu' ni i2it where
    h: "n_users (fst abc_rows) = Some nu'" "index2item (fst abc_rows) = Some i2it"
       "user_item_hits (fst abc_rows) (snd abc_rows) = Inr hits"
    and d: "\<forall>k i. i2it k = Some i \<longrightarrow>
               k < ni \<and> item_cooccurrence hits nu' k k
                         = int (card (user ` {y \<in> set abc_ratings. item y = i}))"
    using cooccurrence_counts [OF p f nl] by blast
  have "nu' = 3" "i2it = py_dict (enumerate 0 (unique (map item abc_ratings)))"
    using h(1,2) nu i2 by simp_all
  with d x z cx cz have "item_cooccurrence hits 3 0 0 = 2" "item_cooccurrence hits 3 2 2 = 1"
    by auto
  moreover have "compute_coocurrence_matrix (fst abc_rows) (snd abc_rows) Float64
        = Inr [[Fin 2, Fin 1, Fin 1], [Fin 1, Fin 2, Fin 0], [Fin 1, Fin 0, Fin 1]]"
    by (simp add: abc_rows_def fit_eval abc_ratings_def)
  ultimately show ?thesis
    using p f nl h(3) by blast
qed

section \<open>Training without time decay: the last row of each pair\<close>

text \<open>
  C4, amended. Without time decay, in a fit that builds its own index, the rows are
  reduced to one row per (user, item) pair; the rows kept are exactly the last rows of their
  pairs in the order of the input (no later row has the same user and item), with the
  timestamp column left out; and the affinity of a pair is the rating of that last row, not
  a sum.
\<close>

theorem no_decay_keeps_last_row:
  assumes f: "fit m df dt features cw demo d content = Inr m'"
    and fresh: "index2item m = None"
    and noload: "\<not> will_load d (length features) demo"
    and nd: "\<not> time_decay_flag m"
  shows "distinct (map row_key (snd (deduplicate m df)))
       \<and> (\<forall>r. r \<in> set (snd (deduplicate m df))
               \<longleftrightarrow> (\<exists>pre x post. df = pre @ x # post \<and> r = select_columns False x
                                     \<and> (\<forall>y \<in> set post. pair_of y \<noteq> pair_of x)))
       \<and> (\<exists>A u2i it2i.
             user_affinity m' = Some A \<and> user2index m' = Some u2i \<and> item2index m' = Some it2i
           \<and> (\<forall>pre x post. df = pre @ x # post \<and> (\<forall>y \<in> set post. pair_of y \<noteq> pair_of x) \<longrightarrow>
                  (\<exists>ku ki. u2i (user x) = Some ku \<and> it2i (item x) = Some ki
                          \<and> A (ku, ki) = Some (rating x))))"
proof -
  let ?u2i = "py_dict (inverted (enumerate 0 (unique (map user df))))"
  let ?it2i = "py_dict (inverted (enumerate 0 (unique (map item df))))"
  let ?D = "drop_duplicates_last (map (select_columns False) df)"
  obtain mt A where p: "prepare_rows m df dt (length features) demo d = Inr mt"
    and A: "compute_affinity_matrix (fst mt) (snd mt) RatingCol = Inr A"
    and ua: "user_affinity m' = Some A"
    and ui: "user2index m' = user2index (fst mt)" "item2index m' = item2index (fst mt)"
    using fit_fields [OF f] by blast
  note F = prepare_rows_fresh [OF p fresh noload]
  have "\<exists>A. compute_affinity_matrix (fst mt) (snd mt) RatingCol = Inr A
           \<and> (\<forall>a b c. A (a, b) = Some c
                 \<longleftrightarrow> (\<exists>r \<in> set (snd mt). ?u2i (t_user r) = Some a \<and> ?it2i (t_item r) = Some b
                                         \<and> col_value RatingCol r = c))"
    by (rule fresh_affinity [OF p fresh noload])
  then obtain A' where "compute_affinity_matrix (fst mt) (snd mt) RatingCol = Inr A'"
    and c': "\<And>a b c. A' (a, b) = Some c
                 \<longleftrightarrow> (\<exists>r \<in> set (snd mt). ?u2i (t_user r) = Some a \<and> ?it2i (t_item r) = Some b
                                         \<and> col_value RatingCol r = c)"
    by blast
  then have "A' = A"
    using A by simp
  with c' have cells: "\<And>a b c. A (a, b) = Some c
                 \<longleftrightarrow> (\<exists>r \<in> set (snd mt). ?u2i (t_user r) = Some a \<and> ?it2i (t_item r) = Some b
                                         \<and> col_value RatingCol r = c)"
    by simp
  have rows: "map (\<lambda>r. (row_key r, t_rating r)) (snd mt) = map (\<lambda>r. (row_key r, t_rating r)) ?D"
    by (rule prepare_rows_no_decay [OF p fresh noload nd])
  have last: "\<exists>ku ki. ?u2i (user x) = Some ku \<and> ?it2i (item x) = Some ki
                     \<and> A (ku, ki) = Some (rating x)"
    if "df = pre @ x # post" and "\<forall>y \<in> set post. pair_of y \<noteq> pair_of x" for pre x post
  proof -
    have "select_columns False x \<in> set ?D"
      using that by (rule last_row_kept)
    then have "(pair_of x, rating x) \<in> set (map (\<lambda>r. (row_key r, t_rating r)) ?D)"
      unfolding keys_conv
      by (rule rev_bexI) (simp add: select_columns_def row_key_def pair_of_def)
    then have "(pair_of x, rating x) \<in> set (map (\<lambda>r. (row_key r, t_rating r)) (snd mt))"
      by (simp only: rows)
    then obtain r where r: "r \<in> set (snd mt)" "row_key r = pair_of x" "t_rating r = rating x"
      unfolding keys_conv by auto
    then have tu: "t_user r = user x" "t_item r = item x"
      by (simp_all add: row_key_def pair_of_def)
    have "well_indexed ?u2i ?it2i r"
      using F(10) r(1) by blast
    then obtain ku ki where k: "?u2i (t_user r) = Some ku" "?it2i (t_item r) = Some ki"
      by (auto simp: well_indexed_def)
    have "\<exists>r \<in> set (snd mt). ?u2i (t_user r) = Some ku \<and> ?it2i (t_item r) = Some ki
                              \<and> col_value RatingCol r = rating x"
      using r(1,3) k by (intro bexI [of _ r]) (simp_all add: col_value_def)
    then have "A (ku, ki) = Some (rating x)"
      by (simp only: cells)
    with k tu show ?thesis
      by (intro exI [of _ ku] exI [of _ ki]) simp
  qed
  have "distinct (map row_key (snd (deduplicate m df)))"
    by (rule deduplicate_keys)
  moreover have "\<forall>r. r \<in> set (snd (deduplicate m df))
               \<longleftrightarrow> (\<exists>pre x post. df = pre @ x # post \<and> r = select_columns False x
                                     \<and> (\<forall>y \<in> set post. pair_of y \<noteq> pair_of x))"
    unfolding no_decay_rows [OF nd] by (simp only: kept_rows_iff) simp
  moreover have "\<exists>A u2i it2i.
             user_affinity m' = Some A \<and> user2index m' = Some u2i \<and> item2index m' = Some it2i
           \<and> (\<forall>pre x post. df = pre @ x # post \<and> (\<forall>y \<in> set post. pair_of y \<noteq> pair_of x) \<longrightarrow>
                  (\<exists>ku ki. u2i (user x) = Some ku \<and> it2i (item x) = Some ki
                          \<and> A (ku, ki) = Some (rating x)))"
  proof (intro exI [of _ A] exI [of _ ?u2i] exI [of _ ?it2i] conjI allI impI)
    show "user_affinity m' = Some A" by (rule ua)
    show "user2index m' = Some ?u2i" using ui(1) F(1) by simp
    show "item2index m' = Some ?it2i" using ui(2) F(2) by simp
    show "\<exists>ku ki. ?u2i (user x) = Some ku \<and> ?it2i (item x) = Some ki
                   \<and> A (ku, ki) = Some (rating x)"
      if "df = pre @ x # post \<and> (\<forall>y \<in> set post. pair_of y \<noteq> pair_of x)" for pre x post
    proof -
      from that have a: "df = pre @ x # post" and b: "\<forall>y \<in> set post. pair_of y \<noteq> pair_of x"
        by simp_all
      show ?thesis
        by (rule last [OF a b])
    qed
  qed
  ultimately show ?thesis
    by (intro conjI)
qed


text \<open>
  C4, as stated: the row kept is the most recent one by the timestamp column when there is
  one. In \<open>stale_ratings\<close> the two rows are of the same pair, the first one is the more
  recent (time \<open>10\<close> against \<open>5\<close>) and holds the rating \<open>5\<close>; the row kept and the
  affinity hold the rating \<open>3\<close> of the last row.
\<close>

theorem last_row_counterexample:
  "pair_of (stale_ratings ! 0) = pair_of (stale_ratings ! 1)
   \<and> timestamp (stale_ratings ! 1) < timestamp (stale_ratings ! 0)
   \<and> rating (stale_ratings ! 0) = Fin 5
   \<and> map t_rating (snd (deduplicate (fresh JACCARD False False) stale_ratings)) = [Fin 3]
   \<and> map_option (\<lambda>A. A (0, 0)) (user_affinity stale_model) = Some (Some (Fin 3))"
proof -
  have "map t_rating (snd (deduplicate (fresh JACCARD False False) stale_ratings)) = [Fin 3]"
    by (simp add: fit_eval stale_ratings_def)
  moreover have "map_option (\<lambda>A. A (0, 0)) (user_affinity stale_model) = Some (Some (Fin 3))"
    by (simp add: stale_model_def fit_eval stale_ratings_def)
  ultimately show ?thesis
    by (simp add: stale_ratings_def pair_of_def)
qed

text \<open>The same table: the affinity of (A, x) is the rating of the last row.\<close>

theorem no_decay_keeps_last_row_witness:
  "fit (fresh JACCARD False False) stale_ratings Float64 no_features no_weights False
     empty_disk zero_content = Inr stale_model
   \<and> index2item (fresh JACCARD False False :: (nat, nat) sar) = None
   \<and> \<not> will_load empty_disk (length no_features) False
   \<and> \<not> time_decay_flag (fresh JACCARD False False :: (nat, nat) sar)
   \<and> distinct (map row_key (snd (deduplicate (fresh JACCARD False False) stale_ratings)))
   \<and> (\<exists>A. user_affinity stale_model = Some A \<and> A (0, 0) = Some (Fin 3))"
proof -
  have "\<not> isl (fit (fresh JACCARD False False) stale_ratings Float64 no_features no_weights False
                 empty_disk zero_content)"
    by (simp add: fit_eval stale_ratings_def)
  then have f: "fit (fresh JACCARD False False) stale_ratings Float64 no_features no_weights
                  False empty_disk zero_content = Inr stale_model"
    by (simp add: stale_model_def)
  have fr: "index2item (fresh JACCARD False False :: (nat, nat) sar) = None"
    by (simp add: fit_eval)
  have nl: "\<not> will_load empty_disk (length no_features) False"
    by (simp add: fit_eval)
  have nd: "\<not> time_decay_flag (fresh JACCARD False False :: (nat, nat) sar)"
    by (simp add: fit_eval)
  let ?x = "\<lparr>user = 1 :: nat, item = 10 :: nat, rating = Fin 3, timestamp = 5\<rparr>"
  have split: "stale_ratings = [\<lparr>user = 1, item = 10, rating = Fin 5, timestamp = 10\<rparr>] @ ?x # []"
    by (simp add: stale_ratings_def)
  have u: "map_option (\<lambda>d. d 1) (user2index stale_model) = Some (Some 0)"
    and i: "map_option (\<lambda>d. d 10) (item2index stale_model) = Some (Some 0)"
    by (simp_all add: stale_model_def fit_eval stale_ratings_def)
  note T = no_decay_keeps_last_row [OF f fr nl nd]
  from T obtain A u2i it2i where
    a: "user_affinity stale_model = Some A" "user2index stale_model = Some u2i"
       "item2index stale_model = Some it2i"
    and l: "\<forall>pre x post. stale_ratings = pre @ x # post
              \<and> (\<forall>y \<in> set post. pair_of y \<noteq> pair_of x) \<longrightarrow>
                 (\<exists>ku ki. u2i (user x) = Some ku \<and> it2i (item x) = Some ki
                         \<and> A (ku, ki) = Some (rating x))"
    by (elim conjE exE)
  from l [rule_format, of "[\<lparr>user = 1, item = 10, rating = Fin 5, timestamp = 10\<rparr>]" ?x "[]"] split
  obtain ku ki where k: "u2i 1 = Some ku" "it2i 10 = Some ki" "A (ku, ki) = Some (Fin 3)"
    by auto
  have "ku = 0" "ki = 0"
    using u i a(2,3) k(1,2) by simp_all
  with k(3) a(1) have "\<exists>A. user_affinity stale_model = Some A \<and> A (0, 0) = Some (Fin 3)"
    by simp
  with f fr nl nd T show ?thesis
    by (intro conjI) simp_all
qed

section \<open>Symmetry of the co-occurrence and of the similarity\<close>

lemmas custom_eval =
  feature_stage_def compute_feature_sim_matrix_def make_sim_matrix_def sim_write_def
  np_empty_def zeros_def scale_def add_arrays_def iadd_def rectangular_def ncols_def
  half_weights_def same_tag_def stale_content_def pair_ratings_def numeral_2_eq_2
  upt_rec [of 0] upt_rec [of "Suc 0"]

text \<open>
  C9, amended. In a fitted model the co-occurrence matrix is symmetric, and so is the item
  similarity in the modes co-occurrence, Jaccard and lift. In the custom mode the item
  similarity is symmetric when the feature similarity is computed by this call and not read
  from a file, every feature similarity function is symmetric, and every index below the
  number of feature rows is the index of the item of some feature row, so that the loops
  of \<^verbatim>\<open>make_sim_matrix\<close> write every cell of the array that \<^verbatim>\<open>np.empty\<close> returned.
\<close>

theorem similarity_symmetric:
  assumes f: "fit m df dt features cw demo d content = Inr m'"
    and custom: "similarity_type m' = CUSTOM \<longrightarrow>
                   \<not> will_load d (length features) demo
                 \<and> (\<forall>cw' \<in> set (feature_weights cw). \<forall>x y. snd (snd cw') x y = snd (snd cw') y x)
                 \<and> (\<forall>a < length features. \<exists>r \<in> set features. \<exists>it2i. item2index m' = Some it2i
                        \<and> it2i (f_itemid r) = Some a)"
  shows "\<exists>mt C S. prepare_rows m df dt (length features) demo d = Inr mt
           \<and> compute_coocurrence_matrix (fst mt) (snd mt) dt = Inr C \<and> symmetric C
           \<and> item_similarity m' = Some S \<and> symmetric S"
proof -
  obtain mt A C where p: "prepare_rows m df dt (length features) demo d = Inr mt"
    and a: "compute_affinity_matrix (fst mt) (snd mt) RatingCol = Inr A"
    and c: "compute_coocurrence_matrix (fst mt) (snd mt) dt = Inr C"
    and st: "similarity_stage ((fst mt)\<lparr>user_affinity := Some A,
                                         item_frequencies := Some (diagonal C)\<rparr>)
               C dt (will_load d (length features) demo) features cw content = Inr m'"
    using fit_parts [OF f] by blast
  let ?m = "(fst mt)\<lparr>user_affinity := Some A, item_frequencies := Some (diagonal C)\<rparr>"
  obtain F S0 where m': "m' = ?m\<lparr>features_sim_matrix := F, item_similarity := Some S0\<rparr>"
    using similarity_stage_fields [OF st] by blast
  then have same: "similarity_type ?m = similarity_type m'" "item2index ?m = item2index m'"
    by simp_all
  obtain ni where ni: "n_items (fst mt) = Some ni"
    using a by (auto simp: compute_affinity_matrix_def split: option.splits)
  have C: "square ni C" "symmetric C"
    using cooccurrence_symmetric [OF c ni] by simp_all
  have "\<exists>S. item_similarity m' = Some S \<and> symmetric S"
    using custom by (intro similarity_stage_symmetric [OF st C]) (simp only: same)
  with p c C(2) show ?thesis
    by blast
qed

text \<open>
  C9, as stated: symmetric feature similarity functions are enough. The feature table
  \<open>repeated_features\<close> lists the item x twice: every write of \<^verbatim>\<open>make_sim_matrix\<close> goes to
  the cell \<open>(0, 0)\<close>, the three other cells keep the content of the uninitialised array,
  and the item similarity is not symmetric although \<open>same_tag\<close> is.
\<close>

theorem custom_similarity_counterexample:
  "(\<forall>x y. same_tag x y = same_tag y x)
   \<and> map_sum id item_similarity
       (fit (fresh CUSTOM False False) pair_ratings Float64 repeated_features half_weights
          False empty_disk stale_content)
     = Inr (Some [[Fin 1, Fin 1], [Fin (1 / 2), Fin (1 / 2)]])
   \<and> \<not> symmetric [[Fin 1, Fin 1], [Fin (1 / 2), Fin (1 / 2)]]"
proof -
  have "\<forall>x y. same_tag x y = same_tag y x"
    by (simp add: same_tag_def)
  moreover have "map_sum id item_similarity
       (fit (fresh CUSTOM False False) pair_ratings Float64 repeated_features half_weights
          False empty_disk stale_content)
     = Inr (Some [[Fin 1, Fin 1], [Fin (1 / 2), Fin (1 / 2)]])"
    by (simp add: fit_eval custom_eval repeated_features_def)
  moreover have "\<not> symmetric [[Fin 1, Fin 1], [Fin (1 / 2), Fin (1 / 2)]]"
  proof
    assume "symmetric [[Fin 1, Fin 1], [Fin (1 / 2), Fin (1 / 2)]]"
    from this [unfolded symmetric_def, rule_format, of 0 1] show False
      by simp
  qed
  ultimately show ?thesis
    by blast
qed

text \<open>With one feature row for each item, the custom similarity of the same table is
  symmetric.\<close>

theorem similarity_symmetric_witness:
  "fit (fresh CUSTOM False False) pair_ratings Float64 tag_features half_weights False
     empty_disk stale_content = Inr tag_model
   \<and> similarity_type tag_model = CUSTOM
   \<and> item_similarity tag_model = Some [[Fin 1, Fin (1 / 2)], [Fin (1 / 2), Fin 1]]
   \<and> (\<exists>mt C S. prepare_rows (fresh CUSTOM False False) pair_ratings Float64
                     (length tag_features) False empty_disk = Inr mt
          \<and> compute_coocurrence_matrix (fst mt) (snd mt) Float64 = Inr C \<and> symmetric C
          \<and> item_similarity tag_model = Some S \<and> symmetric S)"
proof -
  have f: "fit (fresh CUSTOM False False) pair_ratings Float64 tag_features half_weights False
     empty_disk stale_content = Inr tag_model"
    by (simp add: tag_model_def fit_eval custom_eval tag_features_def)
  have t: "similarity_type tag_model = CUSTOM"
    by (simp add: tag_model_def fit_eval custom_eval tag_features_def)
  have s: "item_similarity tag_model = Some [[Fin 1, Fin (1 / 2)], [Fin (1 / 2), Fin 1]]"
    by (simp add: tag_model_def fit_eval custom_eval tag_features_def)
  have i: "item2index tag_model = Some [10 \<mapsto> 0, 11 \<mapsto> 1]"
    by (simp add: tag_model_def fit_eval custom_eval tag_features_def)
  have l: "\<not> will_load empty_disk (length tag_features) False"
    by (simp add: will_load_def empty_disk_def)
  have w: "\<forall>cw' \<in> set (feature_weights half_weights).
             \<forall>x y. snd (snd cw') x y = snd (snd cw') y x"
    by (simp add: half_weights_def same_tag_def)
  have c: "\<forall>a < length tag_features. \<exists>r \<in> set tag_features. \<exists>it2i.
             item2index tag_model = Some it2i \<and> it2i (f_itemid r) = Some a"
    by (auto simp: i tag_features_def less_Suc_eq numeral_2_eq_2)
  from similarity_symmetric [OF f] l w c t s f show ?thesis
    by blast
qed

section \<open>Recommendations from seed items\<close>

lemmas topk_eval =
  get_item_based_topk_def seed_scores_def seed_user_ids_def seed_users_def mask_cells_def
  get_top_k_scored_items_def top_k_row_def result_rows_def drop_invalid_def
  csr_dot_def csr_row_dot_def square_def isnan_def inf_of_sign_def sort_key_def
  upt_rec [of 0] upt_rec [of "Suc 0"] upt_rec [of "Suc (Suc 0)"] numeral_2_eq_2 numeral_3_eq_3

text \<open>
  C8, amended. Let a call of \<^verbatim>\<open>get_item_based_topk\<close> return a table, in a model whose two
  dictionaries of the item index agree (the item that \<^verbatim>\<open>index2item\<close> gives to an index has
  that index in \<^verbatim>\<open>item2index\<close>). Then:

  \<^item> before the selection, the score of every seed row, at the row of its grouping user and the
    column of its item, is minus infinity;
  \<^item> no row of the result has the prediction minus infinity or NaN: these are the rows that
    are dropped (a row with the prediction plus infinity stays);
  \<^item> no row of the result holds the item of a seed row together with the grouping user of
    that seed row.
\<close>

theorem seed_items_masked:
  assumes call: "get_item_based_topk m items top_k sort_top_k = Inr recs"
    and it: "item2index m = Some it2i" and ix: "index2item m = Some i2it"
    and cons: "\<forall>k i. i2it k = Some i \<longrightarrow> it2i i = Some k"
  shows "(\<exists>scores. seed_scores m items = Inr scores
           \<and> (\<forall>n < length (seed_rows items). \<exists>g k.
                 seed_user_ids items ! n = Val g
                 \<and> it2i (s_item (seed_rows items ! n)) = Some k
                 \<and> lookup2 scores g k = Some MInf))
       \<and> (\<forall>r \<in> set recs. r_prediction r \<noteq> MInf \<and> \<not> isnan (r_prediction r))
       \<and> (\<forall>s \<in> set (seed_rows items). \<forall>r \<in> set recs.
            \<not> (r_user r = (if has_user items then Some (s_user s) else None)
                \<and> r_item r = s_item s))"
proof -
  obtain scores where sc: "seed_scores m items = Inr scores"
    using call by (auto simp: get_item_based_topk_def split: sum.splits)
  obtain ni where ni: "n_items m = Some ni"
    using sc by (auto simp: seed_scores_def split: option.splits)
  note cells = seed_scores_cells [OF sc it ni]
  have a: "\<forall>n < length (seed_rows items). \<exists>g k.
                 seed_user_ids items ! n = Val g
                 \<and> it2i (s_item (seed_rows items ! n)) = Some k
                 \<and> lookup2 scores g k = Some MInf"
  proof (intro allI impI)
    fix n
    assume "n < length (seed_rows items)"
    with cells(3) obtain g k where gk: "seed_user_ids items ! n = Val g"
      "it2i (s_item (seed_rows items ! n)) = Some k"
      "g < length scores" "k < ni" "scores ! g ! k = MInf"
      by meson
    then have "lookup2 scores g k = Some MInf"
      using cells(2) by (simp add: lookup2_def)
    with gk(1,2) show "\<exists>g k. seed_user_ids items ! n = Val g
                 \<and> it2i (s_item (seed_rows items ! n)) = Some k
                 \<and> lookup2 scores g k = Some MInf"
      by simp
  qed
  have recs: "\<exists>names ps us. recs = drop_invalid (result_rows us names ps)"
    using call sc ix
    by (auto simp: get_item_based_topk_def Let_def split: option.splits)
  then have b: "\<forall>r \<in> set recs. r_prediction r \<noteq> MInf \<and> \<not> isnan (r_prediction r)"
    by (auto simp: drop_invalid_def)
  have c: "\<forall>s \<in> set (seed_rows items). \<forall>r \<in> set recs.
            \<not> (r_user r = (if has_user items then Some (s_user s) else None)
                \<and> r_item r = s_item s)"
  proof (intro ballI notI)
    fix s r
    assume s: "s \<in> set (seed_rows items)" and r: "r \<in> set recs"
      and same: "r_user r = (if has_user items then Some (s_user s) else None)
                   \<and> r_item r = s_item s"
    from s obtain n where n: "n < length (seed_rows items)" and sn: "seed_rows items ! n = s"
      by (metis in_set_conv_nth)
    have un: "seed_users items ! n = r_user r"
      using n same by (simp add: seed_users_def sn)
    obtain g j where g: "g < length (unique (seed_users items))" "g < length scores"
      and j: "j < length (scores ! g)"
      and ru: "r_user r = unique (seed_users items) ! g"
      and rj: "i2it j = Some (r_item r)"
      and rp: "r_prediction r = scores ! g ! j"
      using result_row_origin [OF call sc ix r] by meson
    have "it2i (r_item r) = Some j"
      using cons rj by simp
    then have sj: "it2i (s_item (seed_rows items ! n)) = Some j"
      using same by (simp add: sn)
    from cells(3) n obtain g' k where gk: "seed_user_ids items ! n = Val g'"
      "it2i (s_item (seed_rows items ! n)) = Some k" "scores ! g' ! k = MInf"
      by meson
    have "k = j"
      using gk(2) sj by simp
    moreover have "g' = g"
      using n g(1) _ gk(1) by (rule seed_group) (simp add: un ru)
    ultimately have "r_prediction r = MInf"
      using gk(3) rp by simp
    with b r show False
      by simp
  qed
  from sc a b c show ?thesis
    by (intro conjI exI [of _ scores])
qed

text \<open>
  C8, as stated: all non-finite rows are dropped from the result. With the rating plus
  infinity for the seed item x, the scores of y and z are plus infinity, and the two rows
  are returned: \<^verbatim>\<open>df.replace(-np.inf, np.nan).dropna()\<close> removes minus infinity and NaN only.
\<close>

theorem seed_counterexample:
  "get_item_based_topk abc_model inf_seed 10 True
     = Inr [\<lparr>r_user = None, r_item = 11, r_prediction = PInf\<rparr>,
            \<lparr>r_user = None, r_item = 12, r_prediction = PInf\<rparr>]
   \<and> \<not> isfinite PInf"
proof -
  have "get_item_based_topk abc_model inf_seed 10 True
     = Inr [\<lparr>r_user = None, r_item = 11, r_prediction = PInf\<rparr>,
            \<lparr>r_user = None, r_item = 12, r_prediction = PInf\<rparr>]"
    by (simp add: abc_model_def fit_eval topk_eval inf_seed_def abc_ratings_def)
  then show ?thesis
    by (simp add: isfinite_def)
qed

text \<open>The cold-start scenario: the scores of the pseudo user are \<open>1, 1/3, 1/2\<close>, the cell of
  x is set to minus infinity, and the result holds z and y, not x.\<close>

theorem seed_items_masked_witness:
  "get_item_based_topk abc_model x_seed 10 True
     = Inr [\<lparr>r_user = None, r_item = 12, r_prediction = Fin (1 / 2)\<rparr>,
            \<lparr>r_user = None, r_item = 11, r_prediction = Fin (1 / 3)\<rparr>]
   \<and> seed_scores abc_model x_seed = Inr [[MInf, Fin (1 / 3), Fin (1 / 2)]]
   \<and> (\<exists>scores. seed_scores abc_model x_seed = Inr scores \<and> lookup2 scores 0 0 = Some MInf)
   \<and> \<not> (\<exists>recs r. get_item_based_topk abc_model x_seed 10 True = Inr recs \<and> r \<in> set recs
              \<and> r_user r = None \<and> r_item r = 10)"
proof -
  let ?recs = "[\<lparr>r_user = None, r_item = 12, r_prediction = Fin (1 / 2)\<rparr>,
                \<lparr>r_user = None, r_item = 11, r_prediction = Fin (1 / 3)\<rparr>]
                 :: (nat, nat) recommendation list"
  have call: "get_item_based_topk abc_model x_seed 10 True = Inr ?recs"
    by (simp add: abc_model_def fit_eval topk_eval x_seed_def abc_ratings_def)
  have sc: "seed_scores abc_model x_seed = Inr [[MInf, Fin (1 / 3), Fin (1 / 2)]]"
    by (simp add: abc_model_def fit_eval topk_eval x_seed_def abc_ratings_def)
  have it: "item2index abc_model = Some (py_dict [(10, 0), (11, 1), (12, 2)])"
    by (simp add: abc_model_def fit_eval abc_ratings_def numeral_2_eq_2)
  have ix: "index2item abc_model = Some (py_dict [(0, 10), (1, 11), (2, 12)])"
    by (simp add: abc_model_def fit_eval abc_ratings_def numeral_2_eq_2)
  have cons: "\<forall>k i. py_dict [(0, 10), (1, 11), (2, 12)] k = Some (i::nat)
                \<longrightarrow> py_dict [(10, 0), (11, 1), (12, 2)] i = Some (k::nat)"
    by (auto simp: py_dict_map_of split: if_splits)
  note th = seed_items_masked [OF call it ix cons]
  from th have "\<exists>scores. seed_scores abc_model x_seed = Inr scores
                  \<and> (\<forall>n < length (seed_rows x_seed). \<exists>g k.
                        seed_user_ids x_seed ! n = Val g
                        \<and> py_dict [(10, 0), (11, 1), (12, 2)] (s_item (seed_rows x_seed ! n)) = Some k
                        \<and> lookup2 scores g k = Some MInf)"
    by (rule conjunct1)
  then have a: "\<exists>scores. seed_scores abc_model x_seed = Inr scores
                  \<and> lookup2 scores 0 0 = Some MInf"
    by (auto simp: x_seed_def seed_user_ids_def py_dict_map_of)
  from th [THEN conjunct2, THEN conjunct2]
  have "\<forall>r \<in> set ?recs. \<not> (r_user r = None \<and> r_item r = 10)"
    by (simp add: x_seed_def)
  with call have c: "\<not> (\<exists>recs r. get_item_based_topk abc_model x_seed 10 True = Inr recs
              \<and> r \<in> set recs \<and> r_user r = None \<and> r_item r = 10)"
    by auto
  from call sc a c show ?thesis
    by (intro conjI)
qed

end
